theory Spec2Isabelle
  imports Main "HOL-Library.Sublist" "HOL-Library.Multiset"
begin

section \<open>FHIR data as the scheduling code reads it\<close>

text \<open>
  Only the fields that the scheduling code touches are kept. An optional field of the
  TypeScript type (\<^verbatim>\<open>identifier?: Identifier[]\<close>) is an \<open>option\<close>; \<open>None\<close> is
  JavaScript's \<^verbatim>\<open>undefined\<close>. A \<^verbatim>\<open>Date\<close> is its time value, an integer number of
  milliseconds since the epoch; the dates of a range come from the calendar and from
  the clock, so the invalid date is left out.
\<close>

type_synonym instant = int

record Identifier =
  ident_use :: "string option"
  ident_system :: "string option"
  ident_value :: "string option"

text \<open>
  A Slot, an Appointment or a Patient: \<open>res_id\<close> is the persisted identity
  (\<^verbatim>\<open>resource.id\<close>), \<open>res_identifier\<close> the list of business identifiers.
\<close>

record Resource =
  resourceType :: string
  res_id :: "string option"
  res_identifier :: "Identifier list option"
  status :: string
  period_start :: string
  period_end :: string

record BundleEntry =
  resource :: "Resource option"

record Bundle =
  entry :: "BundleEntry list option"

text \<open>\<^verbatim>\<open>xs.filter(isDefined)\<close>: drops the \<^verbatim>\<open>undefined\<close> members, keeps the order.\<close>

fun filterDefined :: "'a option list \<Rightarrow> 'a list" where
  "filterDefined [] = []"
| "filterDefined (None # xs) = filterDefined xs"
| "filterDefined (Some x # xs) = x # filterDefined xs"

text \<open>\<^verbatim>\<open>xs ?? EMPTY\<close>\<close>

definition orEmpty :: "'a list option \<Rightarrow> 'a list" where
  "orEmpty xs = (case xs of None \<Rightarrow> [] | Some ys \<Rightarrow> ys)"

section \<open>BookAppointmentForm.tsx: the booking transaction\<close>

record BookResult =
  appointments :: "Resource list"
  slots :: "Resource list"

text \<open>
  \<^verbatim>\<open>data.entry?.map((entry) => entry.resource).filter(isDefined) ?? EMPTY\<close>
\<close>

definition bookResources :: "Bundle \<Rightarrow> Resource list" where
  "bookResources data =
     (case entry data of None \<Rightarrow> [] | Some es \<Rightarrow> filterDefined (map resource es))"

text \<open>Lines 37 to 43 of \<^verbatim>\<open>bookSlot\<close>: the two \<^verbatim>\<open>filter\<close> calls on \<^verbatim>\<open>resourceType\<close>.\<close>

definition bookPartition :: "Bundle \<Rightarrow> BookResult" where
  "bookPartition data =
     (let resources = bookResources data in
      \<lparr> appointments = filter (\<lambda>obj. resourceType obj = ''Appointment'') resources,
        slots = filter (\<lambda>obj. resourceType obj = ''Slot'') resources \<rparr>)"

text \<open>
  What one call of the form's handlers does to the outside, in order: the calls on the
  client (\<^verbatim>\<open>medplum.post\<close>, \<^verbatim>\<open>medplum.invalidateSearches\<close>), on the caller
  (\<^verbatim>\<open>onSuccess\<close>), on the notification helper and on the form's own loading flag.
  \<open>Post slot patient\<close> is the \<^verbatim>\<open>$book\<close> request with its two parameters.
\<close>

datatype Effect =
    SetLoading bool
  | Post Resource Resource
  | InvalidateSearches string
  | OnSuccess BookResult
  | ShowErrorNotification string

text \<open>
  \<^verbatim>\<open>bookSlot\<close>. The awaited \<^verbatim>\<open>medplum.post\<close> either rejects (\<open>Inl error\<close>) or resolves
  to a bundle (\<open>Inr data\<close>); the rejection leaves through the \<^verbatim>\<open>finally\<close> block and is
  the function's own result. \<open>hasOnSuccess\<close> says whether the optional \<^verbatim>\<open>onSuccess\<close>
  prop was given (\<^verbatim>\<open>onSuccess?.(...)\<close>); the callback itself returns normally, as the
  two \<^verbatim>\<open>handleBookSuccess\<close> functions of this repository do.
\<close>

definition bookSlot ::
  "Resource \<Rightarrow> bool \<Rightarrow> Resource \<Rightarrow> string + Bundle \<Rightarrow> Effect list \<times> (string + unit)" where
  "bookSlot slot hasOnSuccess patient response =
     (case response of
        Inl error \<Rightarrow> ([SetLoading True, Post slot patient, SetLoading False], Inl error)
      | Inr data \<Rightarrow>
          ([SetLoading True, Post slot patient,
            InvalidateSearches ''Appointment'', InvalidateSearches ''Slot'']
           @ (if hasOnSuccess then [OnSuccess (bookPartition data)] else [])
           @ [SetLoading False], Inr ()))"

text \<open>
  \<^verbatim>\<open>handleSubmit\<close>: the guard on the selected patient, then \<^verbatim>\<open>bookSlot\<close> inside
  \<^verbatim>\<open>try\<close>/\<^verbatim>\<open>catch\<close>.
\<close>

definition handleSubmit ::
  "Resource option \<Rightarrow> Resource \<Rightarrow> bool \<Rightarrow> string + Bundle \<Rightarrow> Effect list" where
  "handleSubmit patient slot hasOnSuccess response =
     (case patient of
        None \<Rightarrow> []
      | Some p \<Rightarrow>
          (case bookSlot slot hasOnSuccess p response of
             (trace, Inl error) \<Rightarrow> trace @ [ShowErrorNotification error]
           | (trace, Inr _) \<Rightarrow> trace))"

fun isPost :: "Effect \<Rightarrow> bool" where
  "isPost (Post _ _) = True"
| "isPost _ = False"

fun isOnSuccess :: "Effect \<Rightarrow> bool" where
  "isOnSuccess (OnSuccess _) = True"
| "isOnSuccess _ = False"

section \<open>SchedulePage.tsx: merging a booking into the page\<close>

record PageState =
  page_appointments :: "Resource list option"
  page_slots :: "Resource list option"

text \<open>\<^verbatim>\<open>handleBookSuccess\<close> of the schedule page, its two state updaters applied.\<close>

definition handleBookSuccess :: "BookResult \<Rightarrow> PageState \<Rightarrow> PageState" where
  "handleBookSuccess results page =
     page\<lparr> page_appointments := Some (appointments results @ orEmpty (page_appointments page)),
           page_slots :=
             Some (filter (\<lambda>slot. status slot \<noteq> ''busy'') (slots results)
                   @ orEmpty (page_slots page)) \<rparr>"

text \<open>
  The caller of the form: every \<^verbatim>\<open>onSuccess\<close> call of a trace reaches the page's
  \<^verbatim>\<open>handleBookSuccess\<close>; nothing else of a trace touches the page's collections.
\<close>

fun deliver :: "Effect list \<Rightarrow> PageState \<Rightarrow> PageState" where
  "deliver [] page = page"
| "deliver (OnSuccess results # es) page = deliver es (handleBookSuccess results page)"
| "deliver (_ # es) page = deliver es page"

section \<open>utils/scheduling: service types and the transient identifier\<close>

record Coding =
  coding_system :: "string option"
  coding_code :: "string option"

record CodeableConcept =
  coding :: "Coding list option"
  concept_text :: "string option"

text \<open>An extension with its nested extensions and its \<^verbatim>\<open>valueCodeableConcept\<close>.\<close>

datatype Extension =
  Extension (ext_url: string) (ext_extension: "Extension list")
    (valueCodeableConcept: "CodeableConcept option")

record Schedule =
  schedule_id :: string
  extension :: "Extension list option"

definition SchedulingParametersURI :: string where
  "SchedulingParametersURI = ''https://medplum.com/fhir/StructureDefinition/SchedulingParameters''"

definition MedplumSchedulingTransientIdentifierURI :: string where
  "MedplumSchedulingTransientIdentifierURI = ''https://medplum.com/fhir/scheduling-transient-id''"

text \<open>
  Modelled from the spec: \<^verbatim>\<open>uuidv4\<close> is the generator of the \<^verbatim>\<open>uuid\<close> package,
  absent from the source files. The spec calls its result a fresh random unique token.
  A token source gives the token returned by the generator's \<open>n\<close>-th call; the
  functions that draw tokens take the source and the number of calls made so far. What
  is proved about uniqueness assumes a source that never repeats a token (\<open>inj\<close>).
\<close>

type_synonym TokenSource = "nat \<Rightarrow> string"

text \<open>
  Modelled from the spec: \<^verbatim>\<open>setIdentifier\<close> is imported from the client SDK
  (\<^verbatim>\<open>@medplum/core\<close>) and its body is not among the source files. Section 4.2 of the
  spec: assigning attaches the token to the resource as a side-channel identifier
  tagged with the temporary-use marker, and assigning again overwrites the prior token.
  The side channel is the resource's identifier list, keyed by the system URI: the
  entry of that system is overwritten in place, a missing one is appended.
\<close>

fun setIdentifierIn ::
  "Identifier list \<Rightarrow> string \<Rightarrow> string \<Rightarrow> string option \<Rightarrow> Identifier list" where
  "setIdentifierIn [] system token use =
     [\<lparr> ident_use = use, ident_system = Some system, ident_value = Some token \<rparr>]"
| "setIdentifierIn (i # rest) system token use =
     (if ident_system i = Some system
      then i\<lparr> ident_value := Some token, ident_use := use \<rparr> # rest
      else i # setIdentifierIn rest system token use)"

text \<open>
  Modelled from the spec: \<^verbatim>\<open>setIdentifier(resource, system, value, { use })\<close> of the
  client SDK, on the resource's identifier list (created when absent); no other field
  of the resource is touched.
\<close>

definition setIdentifier :: "Resource \<Rightarrow> string \<Rightarrow> string \<Rightarrow> string option \<Rightarrow> Resource" where
  "setIdentifier r system token use =
     r\<lparr> res_identifier := Some (setIdentifierIn (orEmpty (res_identifier r)) system token use) \<rparr>"

text \<open>
  Modelled from the spec: \<^verbatim>\<open>getIdentifier(resource, system)\<close> of the client SDK, not
  among the source files. Section 4.2: reading retrieves a previously assigned token,
  or reports absence if none was ever assigned. Here: the value of the first
  identifier of that system.
\<close>

definition getIdentifier :: "Resource \<Rightarrow> string \<Rightarrow> string option" where
  "getIdentifier r system =
     (case find (\<lambda>i. ident_system i = Some system) (orEmpty (res_identifier r)) of
        None \<Rightarrow> None
      | Some i \<Rightarrow> ident_value i)"

text \<open>
  \<^verbatim>\<open>SchedulingTransientIdentifier.set\<close> and \<^verbatim>\<open>.get\<close>, as written in the source;
  \<open>uuidv4 n\<close> is the result of the \<^verbatim>\<open>uuidv4()\<close> call that \<^verbatim>\<open>set\<close> makes.
\<close>

definition SchedulingTransientIdentifier_set :: "TokenSource \<Rightarrow> nat \<Rightarrow> Resource \<Rightarrow> Resource" where
  "SchedulingTransientIdentifier_set uuidv4 n r =
     setIdentifier r MedplumSchedulingTransientIdentifierURI (uuidv4 n) (Some ''temp'')"

definition SchedulingTransientIdentifier_get :: "Resource \<Rightarrow> string option" where
  "SchedulingTransientIdentifier_get r = getIdentifier r MedplumSchedulingTransientIdentifierURI"


text \<open>
  Modelled from the spec: \<^verbatim>\<open>getExtensionValue\<close> is imported from the client SDK and
  is not among the source files. Section 6 of the spec: each scheduling-parameters
  extension declares an optional coded concept, and an extension with no coded value is
  the wildcard. Here \<^verbatim>\<open>getExtensionValue(ext, url)\<close> is the value of the first nested
  extension with that url, \<^verbatim>\<open>undefined\<close> when there is none.
\<close>

definition getExtensionValue :: "Extension \<Rightarrow> string \<Rightarrow> CodeableConcept option" where
  "getExtensionValue ext url =
     (case find (\<lambda>e. ext_url e = url) (ext_extension ext) of
        None \<Rightarrow> None
      | Some e \<Rightarrow> valueCodeableConcept e)"

text \<open>
  \<^verbatim>\<open>serviceTypesFromSchedulingParameters\<close>:
  \<^verbatim>\<open>schedule?.extension?.filter(...) ?? []\<close>, then the \<^verbatim>\<open>map\<close>.
\<close>

definition serviceTypesFromSchedulingParameters :: "Schedule option \<Rightarrow> CodeableConcept option list" where
  "serviceTypesFromSchedulingParameters schedule =
     (let extensions =
        (case schedule of
           None \<Rightarrow> []
         | Some s \<Rightarrow> filter (\<lambda>ext. ext_url ext = SchedulingParametersURI) (orEmpty (extension s)))
      in map (\<lambda>ext. getExtensionValue ext ''serviceType'') extensions)"

section \<open>FindPane.tsx: the availability search\<close>

text \<open>
  The \<^verbatim>\<open>serviceType\<close> state, of type \<^verbatim>\<open>CodeableConcept | undefined | null\<close>:
  \<open>Null\<close> is no selection made, \<open>Undefined\<close> the wildcard, \<open>Concept c\<close> a specific
  service type.
\<close>

datatype ServiceTypeState = Null | Undefined | Concept CodeableConcept

definition toServiceType :: "CodeableConcept option \<Rightarrow> ServiceTypeState" where
  "toServiceType codeableConcept =
     (case codeableConcept of None \<Rightarrow> Undefined | Some c \<Rightarrow> Concept c)"

text \<open>
  The initial value of the state:
  \<^verbatim>\<open>serviceTypes.length === 1 ? serviceTypes[0].codeableConcept : null\<close>.
\<close>

definition initialServiceType :: "CodeableConcept option list \<Rightarrow> ServiceTypeState" where
  "initialServiceType serviceTypes =
     (if length serviceTypes = 1 then toServiceType (serviceTypes ! 0) else Null)"

record Range =
  range_start :: instant
  range_end :: instant

definition ONE_WEEK_MS :: int where
  "ONE_WEEK_MS = 7 * 24 * 60 * 60 * 1000"

text \<open>
  Modelled from the spec: the hook \<^verbatim>\<open>useSchedulingStartsAt\<close>
  (\<^verbatim>\<open>hooks/useSchedulingStartsAt\<close>) is imported by FindPane.tsx and is not among the
  source files. Section 4.5 and 4.3 of the spec: the earliest schedulable instant is
  \<open>now + minimumNoticeMinutes\<close>.
\<close>

definition useSchedulingStartsAt :: "instant \<Rightarrow> int \<Rightarrow> instant" where
  "useSchedulingStartsAt now minimumNoticeMinutes = now + minimumNoticeMinutes * 60 * 1000"

text \<open>Lines 64 and 65: the two conditional expressions on \<^verbatim>\<open>Date\<close> values.\<close>

definition searchStart :: "Range \<Rightarrow> instant \<Rightarrow> instant" where
  "searchStart rng earliestSchedulable =
     (if range_start rng < earliestSchedulable then earliestSchedulable else range_start rng)"

definition searchEnd :: "Range \<Rightarrow> instant \<Rightarrow> instant" where
  "searchEnd rng earliestSchedulable =
     (if searchStart rng earliestSchedulable < range_end rng
      then range_end rng
      else searchStart rng earliestSchedulable + ONE_WEEK_MS)"

text \<open>
  A query parameter's value: \<open>Instant t\<close> stands for \<^verbatim>\<open>t.toISOString()\<close>, \<open>Literal s\<close>
  for the string \<open>s\<close>. \<^verbatim>\<open>URLSearchParams\<close> is the list of its entries in order.
\<close>

datatype ParamValue = Instant instant | Literal string

type_synonym URLSearchParams = "(string \<times> ParamValue) list"

text \<open>A template literal's \<^verbatim>\<open>${x}\<close> for an optional string: \<^verbatim>\<open>undefined\<close> prints as such.\<close>

definition interpolate :: "string option \<Rightarrow> string" where
  "interpolate x = (case x of None \<Rightarrow> ''undefined'' | Some s \<Rightarrow> s)"

definition serviceTypeTerm :: "Coding \<Rightarrow> string" where
  "serviceTypeTerm c = interpolate (coding_system c) @ ''|'' @ interpolate (coding_code c)"

text \<open>
  Lines 72 to 77: \<^verbatim>\<open>new URLSearchParams({ start, end })\<close>, then one \<^verbatim>\<open>append\<close> per
  coding when \<^verbatim>\<open>serviceType\<close> is truthy (\<^verbatim>\<open>serviceType.coding?.forEach\<close>).
\<close>

definition findParams :: "ServiceTypeState \<Rightarrow> instant \<Rightarrow> instant \<Rightarrow> URLSearchParams" where
  "findParams serviceType start finish =
     [(''start'', Instant start), (''end'', Instant finish)]
     @ (case serviceType of
          Concept c \<Rightarrow> map (\<lambda>cd. (''service-type'', Literal (serviceTypeTerm cd))) (orEmpty (coding c))
        | _ \<Rightarrow> [])"

text \<open>
  One \<^verbatim>\<open>medplum.get\<close> call of the effect with its \<^verbatim>\<open>AbortController\<close>:
  \<open>aborted\<close> is \<^verbatim>\<open>signal.aborted\<close>, \<open>completed\<close> the effect closure's
  \<^verbatim>\<open>completed\<close> flag, set in \<^verbatim>\<open>finally\<close>.
\<close>

record SearchRequest =
  req_schedule_id :: string
  req_params :: URLSearchParams
  aborted :: bool
  completed :: bool

text \<open>The effect's inputs from outside the component: two props and the hook's value.\<close>

record Props =
  prop_schedule :: "Schedule option"
  prop_range :: Range
  prop_earliestSchedulable :: instant

text \<open>
  The component with its surroundings. \<open>pane_slots\<close> and \<open>serviceType\<close> are the two
  \<^verbatim>\<open>useState\<close> cells; \<open>requests\<close> lists every \<^verbatim>\<open>medplum.get\<close> call so far, in
  order of issue; \<open>cleanup\<close> is the cleanup function that React holds for the last
  run of the effect (\<open>Some i\<close>: the closure over request \<open>i\<close>, \<open>None\<close>: \<^verbatim>\<open>() => {}\<close>);
  \<open>notifications\<close> lists the \<^verbatim>\<open>showErrorNotification\<close> calls; \<open>delivered\<close> lists the
  \<^verbatim>\<open>setSlots\<close> calls made by the search callbacks, each with the request it came from;
  \<open>uuids\<close> counts the \<^verbatim>\<open>uuidv4\<close> calls. The third cell, \<^verbatim>\<open>chosenSlot\<close>, is left out:
  the effect and the search callbacks neither read nor write it.
\<close>

record PaneState =
  pane_slots :: "Resource list option"
  serviceType :: ServiceTypeState
  props :: Props
  requests :: "SearchRequest list"
  cleanup :: "nat option"
  notifications :: "string list"
  delivered :: "(nat \<times> Resource list) list"
  uuids :: nat

text \<open>The cleanup returned at line 101: \<^verbatim>\<open>if (!completed) controller.abort()\<close>.\<close>

definition runCleanup :: "PaneState \<Rightarrow> PaneState" where
  "runCleanup st =
     (case cleanup st of
        None \<Rightarrow> st
      | Some i \<Rightarrow>
          if i < length (requests st) \<and> \<not> completed (requests st ! i)
          then st\<lparr> requests := (requests st)[i := (requests st ! i)\<lparr> aborted := True \<rparr>] \<rparr>
          else st)"

text \<open>
  The effect's body, lines 59 to 79 and 101: the guard, the search range, the query and
  the request; the promise's callbacks run later (\<open>settle\<close>).
\<close>

definition runEffect :: "PaneState \<Rightarrow> PaneState" where
  "runEffect st =
     (case prop_schedule (props st) of
        None \<Rightarrow> st\<lparr> cleanup := None \<rparr>
      | Some sched \<Rightarrow>
          if serviceType st = Null then st\<lparr> cleanup := None \<rparr>
          else
            st\<lparr> requests := requests st @
                  [\<lparr> req_schedule_id = schedule_id sched,
                     req_params =
                       findParams (serviceType st)
                         (searchStart (prop_range (props st)) (prop_earliestSchedulable (props st)))
                         (searchEnd (prop_range (props st)) (prop_earliestSchedulable (props st))),
                     aborted = False, completed = False \<rparr>],
                cleanup := Some (length (requests st)) \<rparr>)"

text \<open>
  Line 86: \<^verbatim>\<open>entry.resource && SchedulingTransientIdentifier.set(entry.resource)\<close> for
  each entry, in order; \<open>n\<close> counts the \<^verbatim>\<open>uuidv4\<close> calls made before.
\<close>

fun assignEntries :: "TokenSource \<Rightarrow> nat \<Rightarrow> BundleEntry list \<Rightarrow> BundleEntry list" where
  "assignEntries uuidv4 n [] = []"
| "assignEntries uuidv4 n (e # es) =
     (case resource e of
        None \<Rightarrow> e # assignEntries uuidv4 n es
      | Some r \<Rightarrow>
          e\<lparr> resource := Some (SchedulingTransientIdentifier_set uuidv4 n r) \<rparr>
          # assignEntries uuidv4 (Suc n) es)"

text \<open>Lines 85 to 90: the slot list that the fulfilment callback hands to \<^verbatim>\<open>setSlots\<close>.\<close>

definition foundSlots :: "TokenSource \<Rightarrow> nat \<Rightarrow> Bundle \<Rightarrow> Resource list" where
  "foundSlots uuidv4 n bundle =
     (case entry bundle of
        Some es \<Rightarrow> filterDefined (map resource (assignEntries uuidv4 n es))
      | None \<Rightarrow> [])"

text \<open>The fulfilment callback of request \<open>i\<close>, lines 81 to 91.\<close>

definition onFulfilled :: "TokenSource \<Rightarrow> nat \<Rightarrow> Bundle \<Rightarrow> PaneState \<Rightarrow> PaneState" where
  "onFulfilled uuidv4 i bundle st =
     (if aborted (requests st ! i) then st
      else
        st\<lparr> pane_slots := Some (foundSlots uuidv4 (uuids st) bundle),
            delivered := delivered st @ [(i, foundSlots uuidv4 (uuids st) bundle)],
            uuids := uuids st + length (filterDefined (map resource (orEmpty (entry bundle)))) \<rparr>)"

text \<open>The rejection callback of request \<open>i\<close>, lines 92 to 96.\<close>

definition onRejected :: "nat \<Rightarrow> string \<Rightarrow> PaneState \<Rightarrow> PaneState" where
  "onRejected i error st =
     (if \<not> aborted (requests st ! i) then st\<lparr> notifications := notifications st @ [error] \<rparr>
      else st)"

text \<open>
  The promise of request \<open>i\<close> settles, rejected with an error (\<open>Inl\<close>) or fulfilled
  with a bundle (\<open>Inr\<close>): one of the two callbacks runs, then \<^verbatim>\<open>finally\<close>. A promise
  settles once, so a request that has completed, or was never issued, is left alone.
\<close>

definition settle :: "TokenSource \<Rightarrow> nat \<Rightarrow> string + Bundle \<Rightarrow> PaneState \<Rightarrow> PaneState" where
  "settle uuidv4 i outcome st =
     (if i < length (requests st) \<and> \<not> completed (requests st ! i)
      then
        (let st' = (case outcome of
                      Inl error \<Rightarrow> onRejected i error st
                    | Inr bundle \<Rightarrow> onFulfilled uuidv4 i bundle st)
         in st'\<lparr> requests := (requests st')[i := (requests st' ! i)\<lparr> completed := True \<rparr>] \<rparr>)
      else st)"

text \<open>
  What happens to a mounted pane. A change of \<^verbatim>\<open>serviceType\<close> or of the props changes
  a dependency of the effect, so React runs the pending cleanup and then the effect
  again; unmounting runs the pending cleanup only.
\<close>

datatype Event =
    SetServiceType "CodeableConcept option"
  | Dismiss
  | BookSuccess
  | SetProps Props
  | Settle nat "string + Bundle"
  | Unmount

fun step :: "TokenSource \<Rightarrow> Event \<Rightarrow> PaneState \<Rightarrow> PaneState" where
  "step uuidv4 (SetServiceType c) st =
     runEffect (runCleanup (st\<lparr> serviceType := toServiceType c \<rparr>))"
| "step uuidv4 Dismiss st =
     runEffect (runCleanup (st\<lparr> serviceType := Null, pane_slots := Some [] \<rparr>))"
| "step uuidv4 BookSuccess st =
     runEffect (runCleanup (st\<lparr> serviceType := Null, pane_slots := Some [] \<rparr>))"
| "step uuidv4 (SetProps p) st = runEffect (runCleanup (st\<lparr> props := p \<rparr>))"
| "step uuidv4 (Settle i outcome) st = settle uuidv4 i outcome st"
| "step uuidv4 Unmount st = (runCleanup st)\<lparr> cleanup := None \<rparr>"

fun run :: "TokenSource \<Rightarrow> Event list \<Rightarrow> PaneState \<Rightarrow> PaneState" where
  "run uuidv4 [] st = st"
| "run uuidv4 (e # es) st = run uuidv4 es (step uuidv4 e st)"

text \<open>
  The first render and the first run of the effect. \<open>n0\<close> counts the \<^verbatim>\<open>uuidv4\<close> calls
  made before; the \<^verbatim>\<open>serviceTypes\<close> memo takes one token per service type.
\<close>

definition initialState :: "nat \<Rightarrow> Props \<Rightarrow> PaneState" where
  "initialState n0 p =
     \<lparr> pane_slots = None,
       serviceType = initialServiceType (serviceTypesFromSchedulingParameters (prop_schedule p)),
       props = p,
       requests = [],
       cleanup = None,
       notifications = [],
       delivered = [],
       uuids = n0 + length (serviceTypesFromSchedulingParameters (prop_schedule p)) \<rparr>"

definition mount :: "nat \<Rightarrow> Props \<Rightarrow> PaneState" where
  "mount n0 p = runEffect (initialState n0 p)"

fun isSetServiceType :: "Event \<Rightarrow> bool" where
  "isSetServiceType (SetServiceType _) = True"
| "isSetServiceType _ = False"

text \<open>The events after which React runs the pending cleanup and the effect again.\<close>

fun rerunsEffect :: "Event \<Rightarrow> bool" where
  "rerunsEffect (Settle i outcome) = False"
| "rerunsEffect Unmount = False"
| "rerunsEffect _ = True"

section \<open>utils/slots: merging overlapping slots\<close>

text \<open>
  Modelled from the spec: the slots that \<^verbatim>\<open>mergeOverlappingSlots\<close> merges, reduced
  to the time interval of section 3, \<open>{start: instant, end: instant}\<close>. The function
  is imported by SchedulePage.tsx from \<^verbatim>\<open>utils/slots\<close>, which is not among the
  source files.
\<close>

record Interval =
  ivl_start :: instant
  ivl_end :: instant

text \<open>
  Modelled from the spec: the scan of section 4.1 over the sorted intervals, absent
  from the source files. Scan once, merging the current accumulator's end with the
  next interval's end whenever \<open>next.start \<le> accumulator.end\<close>; otherwise flush the
  accumulator and start a new one. A fully nested interval is absorbed without changing
  the outer bound, so merging two ends takes the later one.
\<close>

fun scan :: "Interval \<Rightarrow> Interval list \<Rightarrow> Interval list" where
  "scan acc [] = [acc]"
| "scan acc (next # rest) =
     (if ivl_start next \<le> ivl_end acc
      then scan (acc\<lparr> ivl_end := max (ivl_end acc) (ivl_end next) \<rparr>) rest
      else acc # scan next rest)"

text \<open>
  Modelled from the spec: \<^verbatim>\<open>mergeOverlappingSlots\<close> of \<^verbatim>\<open>utils/slots\<close>, absent from
  the source files. Section 4.1: sort by start ascending (JavaScript's sort is stable,
  and so is \<open>sort_key\<close>), then scan; empty input gives empty output.
\<close>

definition mergeOverlappingSlots :: "Interval list \<Rightarrow> Interval list" where
  "mergeOverlappingSlots intervals =
     (case sort_key ivl_start intervals of
        [] \<Rightarrow> []
      | first # rest \<Rightarrow> scan first rest)"

text \<open>
  The time covered by a list of intervals, each taken from its start up to its end:
  \<open>covered\<close> leaves the end instant out, \<open>coveredClosed\<close> takes it in.
\<close>

definition covered :: "Interval list \<Rightarrow> instant set" where
  "covered xs = (\<Union>x \<in> set xs. {ivl_start x ..< ivl_end x})"

definition coveredClosed :: "Interval list \<Rightarrow> instant set" where
  "coveredClosed xs = (\<Union>x \<in> set xs. {ivl_start x .. ivl_end x})"

text \<open>The data model's invariant of a time interval: \<open>start < end\<close>.\<close>

definition wellFormed :: "Interval \<Rightarrow> bool" where
  "wellFormed x = (ivl_start x < ivl_end x)"

section \<open>Reading a query, a request's fate and the pane from outside\<close>

fun isServiceTypeParam :: "string \<times> ParamValue \<Rightarrow> bool" where
  "isServiceTypeParam (k, v) = (k = ''service-type'')"

text \<open>A specific service type is selected: neither the wildcard nor no selection.\<close>

fun isSpecific :: "ServiceTypeState \<Rightarrow> bool" where
  "isSpecific (Concept c) = True"
| "isSpecific _ = False"

text \<open>The codings of the selected service type: \<^verbatim>\<open>serviceType.coding\<close>, if any.\<close>

fun codings :: "ServiceTypeState \<Rightarrow> Coding list" where
  "codings (Concept c) = orEmpty (coding c)"
| "codings _ = []"

text \<open>
  A request is dead once it was aborted or has completed. In every state that a pane
  reaches, all requests but the one of the pending cleanup are dead (\<open>othersDead\<close>);
  between a cleanup and the next run of the effect all are (\<open>allDead\<close>).
\<close>

definition dead :: "SearchRequest \<Rightarrow> bool" where
  "dead r = (aborted r \<or> completed r)"

definition othersDead :: "PaneState \<Rightarrow> bool" where
  "othersDead st =
     (\<forall>i < length (requests st). cleanup st \<noteq> Some i \<longrightarrow> dead (requests st ! i))"

definition allDead :: "PaneState \<Rightarrow> bool" where
  "allDead st = (\<forall>i < length (requests st). dead (requests st ! i))"

text \<open>
  What a search callback can change for the user: the slot list, the record of
  deliveries and the error notifications.
\<close>

definition observed ::
  "PaneState \<Rightarrow> Resource list option \<times> (nat \<times> Resource list) list \<times> string list" where
  "observed st = (pane_slots st, delivered st, notifications st)"

section \<open>Fixtures of BookAppointmentForm.test.tsx\<close>

definition bookedAppointment :: Resource where
  "bookedAppointment =
     \<lparr> resourceType = ''Appointment'', res_id = Some ''appointment-1'', res_identifier = None,
       status = ''booked'', period_start = ''2026-02-20T13:00:00Z'',
       period_end = ''2026-02-20T13:30:00Z'' \<rparr>"

definition busySlot :: Resource where
  "busySlot =
     \<lparr> resourceType = ''Slot'', res_id = Some ''slot-1'', res_identifier = None,
       status = ''busy'', period_start = ''2026-02-20T13:00:00Z'',
       period_end = ''2026-02-20T13:30:00Z'' \<rparr>"

definition bufferAfterSlot :: Resource where
  "bufferAfterSlot =
     \<lparr> resourceType = ''Slot'', res_id = Some ''slot-2'', res_identifier = None,
       status = ''busy-unavailable'', period_start = ''2026-02-20T13:30:00Z'',
       period_end = ''2026-02-01T13:45:00Z'' \<rparr>"

definition mockBookResponse :: Bundle where
  "mockBookResponse =
     \<lparr> entry = Some [\<lparr> resource = Some bookedAppointment \<rparr>, \<lparr> resource = Some busySlot \<rparr>,
                     \<lparr> resource = Some bufferAfterSlot \<rparr>] \<rparr>"

section \<open>Fixtures of FindPane.test.tsx\<close>

definition serviceType1 :: CodeableConcept where
  "serviceType1 =
     \<lparr> coding = Some [\<lparr> coding_system = Some ''http://example.com/service-types'',
                        coding_code = Some ''checkup'' \<rparr>],
       concept_text = Some ''Annual Checkup'' \<rparr>"

definition serviceType2 :: CodeableConcept where
  "serviceType2 =
     \<lparr> coding = Some [\<lparr> coding_system = Some ''http://example.com/service-types'',
                        coding_code = Some ''followup'' \<rparr>],
       concept_text = Some ''Follow-up Visit'' \<rparr>"

definition createScheduleWithServiceTypes :: "CodeableConcept option list \<Rightarrow> Schedule" where
  "createScheduleWithServiceTypes serviceTypes =
     \<lparr> schedule_id = ''schedule-1'',
       extension = Some (map (\<lambda>st. Extension SchedulingParametersURI
                                 (case st of
                                    Some c \<Rightarrow> [Extension ''serviceType'' [] (Some c)]
                                  | None \<Rightarrow> [])
                                 None) serviceTypes) \<rparr>"

text \<open>\<^verbatim>\<open>2024-01-15T00:00:00Z\<close> to \<^verbatim>\<open>2024-01-21T23:59:59Z\<close>.\<close>

definition defaultRange :: Range where
  "defaultRange = \<lparr> range_start = 1705276800000, range_end = 1705881599000 \<rparr>"

definition mockSlots :: "Resource list" where
  "mockSlots =
     [\<lparr> resourceType = ''Slot'', res_id = Some ''slot-1'', res_identifier = None,
        status = ''free'', period_start = ''2024-01-16T10:00:00Z'',
        period_end = ''2024-01-16T10:30:00Z'' \<rparr>,
      \<lparr> resourceType = ''Slot'', res_id = Some ''slot-2'', res_identifier = None,
        status = ''free'', period_start = ''2024-01-16T11:00:00Z'',
        period_end = ''2024-01-16T11:30:00Z'' \<rparr>]"

definition mockBundle :: Bundle where
  "mockBundle = \<lparr> entry = Some (map (\<lambda>slot. \<lparr> resource = Some slot \<rparr>) mockSlots) \<rparr>"

text \<open>
  The props of a pane rendered at \<^verbatim>\<open>2024-01-15T09:00:00Z\<close> for a schedule with the
  given service types, and a token generator for the examples: its \<open>n\<close>-th token is
  \<open>n\<close> times the letter u.
\<close>

definition paneProps :: "CodeableConcept option list \<Rightarrow> Range \<Rightarrow> Props" where
  "paneProps serviceTypes rng =
     \<lparr> prop_schedule = Some (createScheduleWithServiceTypes serviceTypes),
       prop_range = rng,
       prop_earliestSchedulable = useSchedulingStartsAt 1705309200000 30 \<rparr>"

definition testUuid :: TokenSource where
  "testUuid n = replicate n (CHR ''u'')"


text \<open>The default setup of the tests: a schedule with the two service types.\<close>

definition twoTypes :: "CodeableConcept option list" where
  "twoTypes = [Some serviceType1, Some serviceType2]"

text \<open>The week after \<open>defaultRange\<close>.\<close>

definition nextWeek :: Range where
  "nextWeek = \<lparr> range_start = 1705881600000, range_end = 1706486399000 \<rparr>"

text \<open>
  A pane that was mounted with one service type, so that it searched at once, and whose
  range then moved to the next week before the first search settled.
\<close>

definition supersededPane :: PaneState where
  "supersededPane =
     run testUuid [SetProps (paneProps [Some serviceType1] nextWeek)]
       (mount 0 (paneProps [Some serviceType1] defaultRange))"

text \<open>
  The spec's merge example, in milliseconds of a day: 10:00 to 10:30, 10:15 to 10:45 and
  11:00 to 11:10.
\<close>

definition specExample :: "Interval list" where
  "specExample =
     [\<lparr> ivl_start = 36000000, ivl_end = 37800000 \<rparr>,
      \<lparr> ivl_start = 36900000, ivl_end = 38700000 \<rparr>,
      \<lparr> ivl_start = 39600000, ivl_end = 40200000 \<rparr>]"

section \<open>The booking transaction: partition, guard and failure\<close>

lemma filterDefined_map_Some: "map Some (filterDefined xs) = filter (\<lambda>x. x \<noteq> None) xs"
  by (induction xs rule: filterDefined.induct) auto

lemma set_filterDefined: "set (filterDefined xs) = {x. Some x \<in> set xs}"
  by (induction xs rule: filterDefined.induct) auto

text \<open>
  Claim C4. For every \<^verbatim>\<open>$book\<close> response bundle, the booking controller hands to its
  caller exactly one result, whose appointments list holds exactly the Appointment
  resources of the bundle and whose slots list exactly its Slot resources, each in the
  order of the response: \<^verbatim>\<open>bookSlot\<close>, and \<^verbatim>\<open>handleSubmit\<close> with a patient selected,
  call \<^verbatim>\<open>onSuccess\<close> once on a resolved request, with the response's resources filtered
  by type (so each list has the same members, as often, in the same order, and is a
  subsequence of the response), where the response's resources are the resource bodies
  of the bundle's entries, in order, entries without a body left out. Without the
  optional callback nothing is handed over.
\<close>

theorem bookSlot_partition:
  "appointments (bookPartition data)
     = filter (\<lambda>r. resourceType r = ''Appointment'') (bookResources data)
   \<and> slots (bookPartition data) = filter (\<lambda>r. resourceType r = ''Slot'') (bookResources data)
   \<and> set (appointments (bookPartition data))
       = {r \<in> set (bookResources data). resourceType r = ''Appointment''}
   \<and> set (slots (bookPartition data)) = {r \<in> set (bookResources data). resourceType r = ''Slot''}
   \<and> subseq (appointments (bookPartition data)) (bookResources data)
   \<and> subseq (slots (bookPartition data)) (bookResources data)
   \<and> map Some (bookResources data)
       = filter (\<lambda>r. r \<noteq> None) (map resource (orEmpty (entry data)))
   \<and> filter isOnSuccess (fst (bookSlot slot True patient (Inr data)))
       = [OnSuccess
            \<lparr> appointments = filter (\<lambda>r. resourceType r = ''Appointment'') (bookResources data),
              slots = filter (\<lambda>r. resourceType r = ''Slot'') (bookResources data) \<rparr>]
   \<and> filter isOnSuccess (handleSubmit (Some patient) slot True (Inr data))
       = [OnSuccess
            \<lparr> appointments = filter (\<lambda>r. resourceType r = ''Appointment'') (bookResources data),
              slots = filter (\<lambda>r. resourceType r = ''Slot'') (bookResources data) \<rparr>]
   \<and> snd (bookSlot slot True patient (Inr data)) = Inr ()
   \<and> filter isOnSuccess (fst (bookSlot slot False patient (Inr data))) = []"
proof -
  have p: "bookPartition data
      = \<lparr> appointments = filter (\<lambda>r. resourceType r = ''Appointment'') (bookResources data),
          slots = filter (\<lambda>r. resourceType r = ''Slot'') (bookResources data) \<rparr>"
    by (simp add: bookPartition_def Let_def)
  have b: "map Some (bookResources data)
       = filter (\<lambda>r. r \<noteq> None) (map resource (orEmpty (entry data)))"
    by (simp add: bookResources_def orEmpty_def filterDefined_map_Some split: option.split)
  have s: "filter isOnSuccess (fst (bookSlot slot True patient (Inr data)))
      = [OnSuccess (bookPartition data)]"
    "snd (bookSlot slot True patient (Inr data)) = Inr ()"
    "filter isOnSuccess (fst (bookSlot slot False patient (Inr data))) = []"
    by (simp_all add: bookSlot_def)
  have h: "filter isOnSuccess (handleSubmit (Some patient) slot True (Inr data))
      = [OnSuccess (bookPartition data)]"
    by (simp add: handleSubmit_def bookSlot_def)
  from b s h show ?thesis unfolding p by simp
qed

text \<open>
  The spec's example, which is also the test \<^verbatim>\<open>calls onSuccess with appointments and
  slots from the response\<close>: one appointment, a busy slot and a buffer slot.
\<close>

lemma bookPartition_example:
  "bookPartition mockBookResponse
     = \<lparr> appointments = [bookedAppointment], slots = [busySlot, bufferAfterSlot] \<rparr>"
  by code_simp

lemma deliver_no_OnSuccess: "filter isOnSuccess tr = [] \<Longrightarrow> deliver tr page = page"
  by (induction tr page rule: deliver.induct) auto

text \<open>
  Claim C8. Submitting without a selected patient does nothing at all: no request, no
  callback, no notification. With a patient selected, one submission issues exactly one
  \<^verbatim>\<open>$book\<close> request, the one for the chosen slot and that patient, whatever the
  response. When the request fails, the error is shown to the user, the success callback
  is not invoked, and the caller's collections are left as they were.
\<close>

theorem handleSubmit_guard_and_failure:
  "handleSubmit None slot h response = []
   \<and> length (filter isPost (handleSubmit (Some p) slot h response)) = 1
   \<and> filter isPost (handleSubmit (Some p) slot h response) = [Post slot p]
   \<and> ShowErrorNotification err \<in> set (handleSubmit (Some p) slot h (Inl err))
   \<and> filter isOnSuccess (handleSubmit (Some p) slot h (Inl err)) = []
   \<and> deliver (handleSubmit (Some p) slot h (Inl err)) page = page"
  by (auto simp: handleSubmit_def bookSlot_def split: sum.splits)

section \<open>The schedule page after a booking\<close>

text \<open>
  Claim C10. After a successful booking the page's appointment collection is the
  returned appointments followed by the appointments held before, and its slot
  collection is the returned slots whose status is not \<open>busy\<close>, in order, followed by
  the slots held before; a collection not yet loaded counts as empty.
\<close>

theorem handleBookSuccess_merge:
  "page_appointments (handleBookSuccess results page)
     = Some (appointments results @ orEmpty (page_appointments page))
   \<and> page_slots (handleBookSuccess results page)
       = Some (filter (\<lambda>s. status s \<noteq> ''busy'') (slots results) @ orEmpty (page_slots page))
   \<and> suffix (orEmpty (page_appointments page))
        (orEmpty (page_appointments (handleBookSuccess results page)))
   \<and> suffix (orEmpty (page_slots page)) (orEmpty (page_slots (handleBookSuccess results page)))
   \<and> prefix (appointments results) (orEmpty (page_appointments (handleBookSuccess results page)))"
  by (simp add: handleBookSuccess_def orEmpty_def suffix_def)

text \<open>
  The booking of the example reaches a page that has loaded nothing yet: the
  appointment is shown, the busy slot is not, the buffer slot is.
\<close>

lemma handleBookSuccess_example:
  "handleBookSuccess (bookPartition mockBookResponse)
     \<lparr> page_appointments = None, page_slots = None \<rparr>
     = \<lparr> page_appointments = Some [bookedAppointment], page_slots = Some [bufferAfterSlot] \<rparr>"
  by code_simp

section \<open>The search range\<close>

text \<open>
  Claim C2. For every requested range and every clock value, the search's effective
  start is the later of \<open>range.start\<close> and the earliest schedulable instant, which is
  now plus the 30 minutes of minimum notice; its effective end is \<open>range.end\<close> when
  that is strictly after the effective start, and the effective start plus exactly
  seven days otherwise. The same holds for any earliest schedulable instant.
\<close>

theorem search_range:
  "searchStart rng (useSchedulingStartsAt now 30) = max (range_start rng) (now + 30 * 60 * 1000)
   \<and> searchEnd rng (useSchedulingStartsAt now 30) =
       (if max (range_start rng) (now + 30 * 60 * 1000) < range_end rng
        then range_end rng
        else max (range_start rng) (now + 30 * 60 * 1000) + 7 * 24 * 60 * 60 * 1000)
   \<and> searchStart rng earliest = max (range_start rng) earliest
   \<and> searchEnd rng earliest =
       (if searchStart rng earliest < range_end rng then range_end rng
        else searchStart rng earliest + 604800000)"
  by (simp add: searchStart_def searchEnd_def useSchedulingStartsAt_def ONE_WEEK_MS_def max_def)

text \<open>
  The spec's example: now is \<^verbatim>\<open>2024-01-15T09:00:00Z\<close>, the range starts at
  \<^verbatim>\<open>09:10:00Z\<close>, the search starts at \<^verbatim>\<open>09:30:00Z\<close>.
\<close>

lemma clamping_example:
  "searchStart \<lparr> range_start = 1705309800000, range_end = 1705881599000 \<rparr>
     (useSchedulingStartsAt 1705309200000 30) = 1705311000000"
  by (simp add: searchStart_def useSchedulingStartsAt_def)

section \<open>The service type selector\<close>

lemma step_Null_no_search:
  "serviceType st = Null \<Longrightarrow> requests st = [] \<Longrightarrow> \<not> isSetServiceType e \<Longrightarrow>
   serviceType (step u e st) = Null \<and> requests (step u e st) = []
    \<and> notifications (step u e st) = notifications st"
  by (cases e) (simp_all add: runEffect_def runCleanup_def settle_def split: option.split)

lemma run_Null_no_search:
  "serviceType st = Null \<Longrightarrow> requests st = [] \<Longrightarrow> filter isSetServiceType es = [] \<Longrightarrow>
   serviceType (run u es st) = Null \<and> requests (run u es st) = []
   \<and> notifications (run u es st) = notifications st"
proof (induction es arbitrary: st)
  case Nil
  then show ?case by simp
next
  case (Cons e es)
  from Cons.prems have e: "\<not> isSetServiceType e" and es: "filter isSetServiceType es = []"
    by (auto split: if_splits)
  from step_Null_no_search[OF Cons.prems(1,2) e, of u]
  have s: "serviceType (step u e st) = Null"
    and l: "requests (step u e st) = []"
    and n: "notifications (step u e st) = notifications st" by auto
  from Cons.IH[OF s l es] n show ?case by simp
qed

lemma serviceTypes_Some: "serviceTypesFromSchedulingParameters sch \<noteq> [] \<Longrightarrow> sch \<noteq> None"
  by (cases sch) (auto simp: serviceTypesFromSchedulingParameters_def)

lemma mount_Null:
  "length (serviceTypesFromSchedulingParameters (prop_schedule p)) \<noteq> 1 \<Longrightarrow>
   serviceType (mount n0 p) = Null \<and> requests (mount n0 p) = [] \<and> notifications (mount n0 p) = []"
  by (simp add: mount_def initialState_def initialServiceType_def runEffect_def split: option.split)

lemma toServiceType_not_Null [simp]: "toServiceType c \<noteq> Null"
  by (simp add: toServiceType_def split: option.split)

lemma mount_single:
  assumes "length (serviceTypesFromSchedulingParameters (prop_schedule p)) = 1"
  shows "serviceType (mount n0 p) = toServiceType (serviceTypesFromSchedulingParameters (prop_schedule p) ! 0)
   \<and> length (requests (mount n0 p)) = 1"
proof -
  from assms have "serviceTypesFromSchedulingParameters (prop_schedule p) \<noteq> []" by auto
  then obtain sched where "prop_schedule p = Some sched"
    using serviceTypes_Some by blast
  with assms show ?thesis
    by (simp add: mount_def initialState_def initialServiceType_def runEffect_def)
qed

lemma select_fires:
  "requests st = [] \<Longrightarrow> prop_schedule (props st) \<noteq> None \<Longrightarrow>
   serviceType (step u (SetServiceType c) st) = toServiceType c
   \<and> length (requests (step u (SetServiceType c) st)) = 1"
  by (auto simp: runEffect_def runCleanup_def split: option.split)

text \<open>
  Claim C5. The pane's service types are those configured on its schedule. With none
  configured the selector starts as no selection and mounting issues no search. With
  exactly one, the selector starts as that service type (the wildcard, if that is what
  is configured) and mounting issues exactly one search. With two or more, the selector
  starts as no selection, and however the props change or requests settle, as long as
  the user selects nothing there is no selection, no search and no error notification;
  when the user then selects a service type (the pane having a schedule), the selector
  takes it and exactly one search is issued. Whenever there is no selection, running
  the effect issues no search, raises no notification and leaves the slot list alone.
\<close>

theorem service_type_selector:
  fixes p :: Props and u :: "nat \<Rightarrow> string"
  defines "sts \<equiv> serviceTypesFromSchedulingParameters (prop_schedule p)"
  shows "(sts = [] \<longrightarrow> serviceType (mount n0 p) = Null \<and> requests (mount n0 p) = [])
    \<and> (length sts = 1 \<longrightarrow> serviceType (mount n0 p) = toServiceType (sts ! 0)
          \<and> length (requests (mount n0 p)) = 1)
    \<and> (2 \<le> length sts \<longrightarrow>
          (\<forall>es. filter isSetServiceType es = [] \<longrightarrow>
             serviceType (run u es (mount n0 p)) = Null
             \<and> requests (run u es (mount n0 p)) = []
             \<and> notifications (run u es (mount n0 p)) = []
             \<and> (\<forall>c. prop_schedule (props (run u es (mount n0 p))) \<noteq> None \<longrightarrow>
                   serviceType (step u (SetServiceType c) (run u es (mount n0 p))) = toServiceType c
                   \<and> length (requests (step u (SetServiceType c) (run u es (mount n0 p)))) = 1)))
    \<and> (serviceType st = Null \<longrightarrow>
          requests (runEffect st) = requests st \<and> notifications (runEffect st) = notifications st
          \<and> pane_slots (runEffect st) = pane_slots st)"
proof (intro conjI impI allI)
  assume "sts = []"
  then have "length (serviceTypesFromSchedulingParameters (prop_schedule p)) \<noteq> 1"
    by (simp add: sts_def)
  from mount_Null[OF this] show "serviceType (mount n0 p) = Null" "requests (mount n0 p) = []"
    by simp_all
next
  assume "length sts = 1"
  then have "length (serviceTypesFromSchedulingParameters (prop_schedule p)) = 1"
    by (simp add: sts_def)
  from mount_single[OF this] show "serviceType (mount n0 p) = toServiceType (sts ! 0)"
    "length (requests (mount n0 p)) = 1" by (simp_all add: sts_def)
next
  fix es c
  assume two: "2 \<le> length sts" and es: "filter isSetServiceType es = []"
  from two have "length (serviceTypesFromSchedulingParameters (prop_schedule p)) \<noteq> 1"
    by (simp add: sts_def)
  from mount_Null[OF this] have m: "serviceType (mount n0 p) = Null" "requests (mount n0 p) = []"
    "notifications (mount n0 p) = []" by simp_all
  from run_Null_no_search[OF m(1,2) es, of u] m(3)
  show "serviceType (run u es (mount n0 p)) = Null" "requests (run u es (mount n0 p)) = []"
    "notifications (run u es (mount n0 p)) = []" by simp_all
  then have r: "requests (run u es (mount n0 p)) = []" by simp
  assume sch: "prop_schedule (props (run u es (mount n0 p))) \<noteq> None"
  from select_fires[OF r sch]
  show "serviceType (step u (SetServiceType c) (run u es (mount n0 p))) = toServiceType c"
    "length (requests (step u (SetServiceType c) (run u es (mount n0 p)))) = 1" by simp_all
next
  assume "serviceType st = Null"
  then show "requests (runEffect st) = requests st" "notifications (runEffect st) = notifications st"
    "pane_slots (runEffect st) = pane_slots st"
    by (simp_all add: runEffect_def split: option.split)
qed

theorem service_type_selector_witness:
  "serviceTypesFromSchedulingParameters (prop_schedule (paneProps [] defaultRange)) = []
   \<and> serviceType (mount 0 (paneProps [] defaultRange)) = Null
   \<and> requests (mount 0 (paneProps [] defaultRange)) = []
   \<and> length (serviceTypesFromSchedulingParameters (prop_schedule (paneProps [None] defaultRange))) = 1
   \<and> serviceType (mount 0 (paneProps [None] defaultRange)) = Undefined
   \<and> length (requests (mount 0 (paneProps [None] defaultRange))) = 1
   \<and> 2 \<le> length (serviceTypesFromSchedulingParameters
                  (prop_schedule (paneProps [Some serviceType1, Some serviceType2] defaultRange)))
   \<and> filter isSetServiceType [SetProps (paneProps [Some serviceType1, Some serviceType2] nextWeek)] = []
   \<and> requests (run testUuid [SetProps (paneProps [Some serviceType1, Some serviceType2] nextWeek)]
                 (mount 0 (paneProps [Some serviceType1, Some serviceType2] defaultRange))) = []
   \<and> serviceType
        (step testUuid (SetServiceType (Some serviceType1))
          (run testUuid [SetProps (paneProps [Some serviceType1, Some serviceType2] nextWeek)]
            (mount 0 (paneProps [Some serviceType1, Some serviceType2] defaultRange))))
       = Concept serviceType1
   \<and> length (requests
        (step testUuid (SetServiceType (Some serviceType1))
          (run testUuid [SetProps (paneProps [Some serviceType1, Some serviceType2] nextWeek)]
            (mount 0 (paneProps [Some serviceType1, Some serviceType2] defaultRange))))) = 1
   \<and> serviceType (initialState 0 (paneProps [] defaultRange)) = Null
   \<and> requests (runEffect (initialState 0 (paneProps [] defaultRange))) = []"
proof -
  let ?two = "[Some serviceType1, Some serviceType2]"
  let ?es = "[SetProps (paneProps ?two nextWeek)]"
  have h0: "serviceTypesFromSchedulingParameters (prop_schedule (paneProps [] defaultRange)) = []"
    by code_simp
  have h1: "length (serviceTypesFromSchedulingParameters (prop_schedule (paneProps [None] defaultRange))) = 1"
    by code_simp
  have v1: "toServiceType (serviceTypesFromSchedulingParameters
      (prop_schedule (paneProps [None] defaultRange)) ! 0) = Undefined"
    by code_simp
  have h2: "2 \<le> length (serviceTypesFromSchedulingParameters (prop_schedule (paneProps ?two defaultRange)))"
    by code_simp
  have h3: "filter isSetServiceType ?es = []" by simp
  have h4: "prop_schedule (props (run testUuid ?es (mount 0 (paneProps ?two defaultRange)))) \<noteq> None"
    by code_simp
  have h5: "serviceType (initialState 0 (paneProps [] defaultRange)) = Null" by code_simp
  have v2: "toServiceType (Some serviceType1) = Concept serviceType1" by (simp add: toServiceType_def)
  have v3: "requests (initialState 0 (paneProps [] defaultRange)) = []" by (simp add: initialState_def)
  note a = service_type_selector[of "paneProps [] defaultRange" 0 testUuid
      "initialState 0 (paneProps [] defaultRange)"]
  note b = service_type_selector[of "paneProps [None] defaultRange" 0 testUuid
      "initialState 0 (paneProps [] defaultRange)"]
  note c = service_type_selector[of "paneProps ?two defaultRange" 0 testUuid
      "initialState 0 (paneProps [] defaultRange)"]
  from a h0 have c0: "serviceType (mount 0 (paneProps [] defaultRange)) = Null"
    "requests (mount 0 (paneProps [] defaultRange)) = []" by blast+
  from b h1 v1 have c1: "serviceType (mount 0 (paneProps [None] defaultRange)) = Undefined"
    "length (requests (mount 0 (paneProps [None] defaultRange))) = 1" by simp_all
  from c h2 h3 have c2: "requests (run testUuid ?es (mount 0 (paneProps ?two defaultRange))) = []"
    by blast
  from c h2 h3 h4 v2 have c3: "serviceType
        (step testUuid (SetServiceType (Some serviceType1))
          (run testUuid ?es (mount 0 (paneProps ?two defaultRange)))) = Concept serviceType1"
      "length (requests
        (step testUuid (SetServiceType (Some serviceType1))
          (run testUuid ?es (mount 0 (paneProps ?two defaultRange))))) = 1"
    by metis+
  from a h5 v3 have c4: "requests (runEffect (initialState 0 (paneProps [] defaultRange))) = []"
    by simp
  from h0 c0 h1 c1 h2 h3 c2 c3 h5 c4 show ?thesis by blast
qed

section \<open>The availability query\<close>

text \<open>
  Claim C6, amended. The query always carries the computed start and end; its
  service-type terms are exactly one per coding of the selected specific service type,
  in order, each formatted as \<open>system|code\<close>, and none when the wildcard or nothing
  is selected. So the query carries service-type terms if and only if a specific
  service type with at least one coding is selected. The effect issues its request with
  this query for the computed search range, and issues none without a schedule or a
  selection.
\<close>

theorem find_query:
  "map_of (findParams sel start finish) ''start'' = Some (Instant start)
   \<and> map_of (findParams sel start finish) ''end'' = Some (Instant finish)
   \<and> filter isServiceTypeParam (findParams sel start finish)
       = map (\<lambda>cd. (''service-type'',
                    Literal (interpolate (coding_system cd) @ ''|'' @ interpolate (coding_code cd))))
           (codings sel)
   \<and> length (filter isServiceTypeParam (findParams sel start finish)) = length (codings sel)
   \<and> (filter isServiceTypeParam (findParams sel start finish) \<noteq> [])
       = (isSpecific sel \<and> codings sel \<noteq> [])
   \<and> findParams Undefined start finish = [(''start'', Instant start), (''end'', Instant finish)]
   \<and> map req_params (drop (length (requests st)) (requests (runEffect st)))
       = (if prop_schedule (props st) = None \<or> serviceType st = Null then []
          else [findParams (serviceType st)
                  (searchStart (prop_range (props st)) (prop_earliestSchedulable (props st)))
                  (searchEnd (prop_range (props st)) (prop_earliestSchedulable (props st)))])"
  by (cases sel)
    (auto simp add: findParams_def serviceTypeTerm_def filter_map comp_def runEffect_def
      split: option.split)

text \<open>
  The claim as stated fails for a specific service type without codings (a concept
  that has only its text): it is selected, and the query carries no service-type term.
\<close>

theorem find_query_counterexample:
  "\<not> ((filter isServiceTypeParam
         (findParams (Concept \<lparr> coding = None, concept_text = Some ''Annual Checkup'' \<rparr>) 0 1) \<noteq> [])
       = isSpecific (Concept \<lparr> coding = None, concept_text = Some ''Annual Checkup'' \<rparr>))"
  by (simp add: findParams_def orEmpty_def)

section \<open>The transient identifier\<close>

lemma find_setIdentifierIn:
  "\<exists>i. find (\<lambda>i. ident_system i = Some sys) (setIdentifierIn xs sys tok use) = Some i
       \<and> ident_value i = Some tok \<and> ident_use i = use \<and> ident_system i = Some sys"
  by (induction xs) auto


lemma get_set:
  "SchedulingTransientIdentifier_get (SchedulingTransientIdentifier_set u n r) = Some (u n)"
  using find_setIdentifierIn[of MedplumSchedulingTransientIdentifierURI "orEmpty (res_identifier r)" "u n" "Some ''temp''"]
  by (auto simp: SchedulingTransientIdentifier_get_def SchedulingTransientIdentifier_set_def
      getIdentifier_def setIdentifier_def orEmpty_def)

lemma assignEntries_enumerate:
  "filterDefined (map resource (assignEntries u n es))
   = map (\<lambda>(k, r). SchedulingTransientIdentifier_set u k r) (enumerate n (filterDefined (map resource es)))"
  by (induction es arbitrary: n) (auto split: option.split)

lemma foundSlots_enumerate:
  "foundSlots u n bundle
   = map (\<lambda>(k, r). SchedulingTransientIdentifier_set u k r) (enumerate n (bookResources bundle))"
  by (simp add: foundSlots_def bookResources_def assignEntries_enumerate split: option.split)

lemma tokens_foundSlots:
  "map SchedulingTransientIdentifier_get (foundSlots u n bundle)
   = map (\<lambda>k. Some (u k)) [n ..< n + length (bookResources bundle)]"
proof -
  have "map SchedulingTransientIdentifier_get (foundSlots u n bundle)
      = map ((\<lambda>k. Some (u k)) \<circ> fst) (enumerate n (bookResources bundle))"
    by (simp add: foundSlots_enumerate get_set case_prod_unfold comp_def)
  also have "\<dots> = map (\<lambda>k. Some (u k)) (map fst (enumerate n (bookResources bundle)))"
    by (simp only: map_map)
  finally show ?thesis by simp
qed

lemma distinct_tokens_foundSlots:
  assumes "inj u"
  shows "distinct (map SchedulingTransientIdentifier_get (foundSlots u n bundle))"
proof -
  from assms have "inj (\<lambda>k. Some (u k))" by (simp add: inj_def)
  then show ?thesis
    by (simp add: tokens_foundSlots distinct_map inj_on_def inj_def)
qed
lemma length_filterDefined: "length (filterDefined xs) = length (filter (\<lambda>x. x \<noteq> None) xs)"
  by (induction xs rule: filterDefined.induct) auto

lemma inj_testUuid: "inj testUuid"
proof (rule injI)
  fix x y assume "testUuid x = testUuid y"
  then have "length (testUuid x) = length (testUuid y)" by simp
  then show "x = y" by (simp add: testUuid_def)
qed



section \<open>The search response\<close>

text \<open>
  Claim C7. On a fulfilled search, a bundle without an entry field gives the empty
  slot list; the slot list holds the resource bodies of the entries in order, each with
  a fresh transient identifier assigned, entries without a body left out; and every
  slot of the list has a transient identifier. This list becomes the pane's slot list
  unless the request was aborted.
\<close>

theorem found_slots:
  "foundSlots u n (bundle\<lparr> entry := None \<rparr>) = []
   \<and> foundSlots u n bundle
       = map (\<lambda>(k, r). SchedulingTransientIdentifier_set u k r) (enumerate n (bookResources bundle))
   \<and> length (foundSlots u n bundle)
       = length (filter (\<lambda>e. resource e \<noteq> None) (orEmpty (entry bundle)))
   \<and> list_all (\<lambda>s. SchedulingTransientIdentifier_get s \<noteq> None) (foundSlots u n bundle)
   \<and> pane_slots (onFulfilled u i bundle st)
       = (if aborted (requests st ! i) then pane_slots st
          else Some (foundSlots u (uuids st) bundle))"
proof -
  have 1: "foundSlots u n (bundle\<lparr> entry := None \<rparr>) = []"
    by (simp add: foundSlots_def)
  have 3: "length (foundSlots u n bundle)
       = length (filter (\<lambda>e. resource e \<noteq> None) (orEmpty (entry bundle)))"
    by (simp add: foundSlots_enumerate bookResources_def orEmpty_def length_filterDefined
        filter_map comp_def split: option.split)
  have 4: "list_all (\<lambda>s. SchedulingTransientIdentifier_get s \<noteq> None) (foundSlots u n bundle)"
    by (auto simp: foundSlots_enumerate list_all_iff get_set)
  have 5: "pane_slots (onFulfilled u i bundle st)
       = (if aborted (requests st ! i) then pane_slots st
          else Some (foundSlots u (uuids st) bundle))"
    by (simp add: onFulfilled_def)
  from 1 foundSlots_enumerate 3 4 5 show ?thesis by blast
qed

section \<open>Cancellation of superseded searches\<close>

lemma allDead_runCleanup: "othersDead st \<Longrightarrow> allDead (runCleanup st)"
  by (auto simp: othersDead_def allDead_def runCleanup_def dead_def nth_list_update split: option.split)

lemma othersDead_runEffect: "allDead st \<Longrightarrow> othersDead (runEffect st)"
  by (auto simp: othersDead_def allDead_def runEffect_def nth_append split: option.split)

lemma allDead_fields:
  "allDead (st\<lparr> serviceType := x \<rparr>) = allDead st"
  "allDead (st\<lparr> props := y \<rparr>) = allDead st"
  "allDead (st\<lparr> pane_slots := z \<rparr>) = allDead st"
  "allDead (st\<lparr> cleanup := w \<rparr>) = allDead st"
  by (simp_all add: allDead_def)

lemma othersDead_fields:
  "othersDead (st\<lparr> serviceType := x \<rparr>) = othersDead st"
  "othersDead (st\<lparr> props := y \<rparr>) = othersDead st"
  "othersDead (st\<lparr> pane_slots := z \<rparr>) = othersDead st"
  by (simp_all add: othersDead_def)

lemma allDead_othersDead: "allDead st \<Longrightarrow> othersDead (st\<lparr> cleanup := w \<rparr>)"
  by (simp add: allDead_def othersDead_def)

lemma requests_onRejected [simp]: "requests (onRejected i e st) = requests st"
  by (simp add: onRejected_def)
lemma requests_onFulfilled [simp]: "requests (onFulfilled u i b st) = requests st"
  by (simp add: onFulfilled_def)
lemma cleanup_onRejected [simp]: "cleanup (onRejected i e st) = cleanup st"
  by (simp add: onRejected_def)
lemma cleanup_onFulfilled [simp]: "cleanup (onFulfilled u i b st) = cleanup st"
  by (simp add: onFulfilled_def)

lemma othersDead_settle: "othersDead st \<Longrightarrow> othersDead (settle u i outcome st)"
  by (auto simp: othersDead_def settle_def Let_def dead_def nth_list_update split: sum.split)

lemma othersDead_step: "othersDead st \<Longrightarrow> othersDead (step u e st)"
proof (cases e)
  case (Settle i outcome)
  assume "othersDead st"
  with Settle show ?thesis by (simp add: othersDead_settle)
next
  case Unmount
  assume "othersDead st"
  with Unmount show ?thesis by (simp add: allDead_othersDead allDead_runCleanup)
qed (simp_all add: othersDead_runEffect allDead_runCleanup othersDead_fields)

lemma othersDead_run: "othersDead st \<Longrightarrow> othersDead (run u es st)"
  by (induction es arbitrary: st) (simp_all add: othersDead_step)

lemma othersDead_mount: "othersDead (mount n0 p)"
  by (simp add: mount_def othersDead_runEffect allDead_def initialState_def)

lemma othersDead_reachable: "othersDead (run u es (mount n0 p))"
  by (simp add: othersDead_run othersDead_mount)

lemma settle_dead:
  "i < length (requests st) \<longrightarrow> dead (requests st ! i) \<Longrightarrow> observed (settle u i outcome st) = observed st"
  by (auto simp: settle_def observed_def dead_def onRejected_def onFulfilled_def Let_def split: sum.split)

lemma settle_superseded:
  assumes "othersDead st" "cleanup st \<noteq> Some i"
  shows "observed (settle u i outcome st) = observed st"
  using assms by (intro settle_dead) (auto simp: othersDead_def)

lemma settle_live_rejected:
  "i < length (requests st) \<Longrightarrow> \<not> aborted (requests st ! i) \<Longrightarrow> \<not> completed (requests st ! i) \<Longrightarrow>
   notifications (settle u i (Inl err) st) = notifications st @ [err]
   \<and> pane_slots (settle u i (Inl err) st) = pane_slots st
   \<and> delivered (settle u i (Inl err) st) = delivered st"
  by (simp add: settle_def onRejected_def Let_def)

lemma settle_live_fulfilled:
  "i < length (requests st) \<Longrightarrow> \<not> aborted (requests st ! i) \<Longrightarrow> \<not> completed (requests st ! i) \<Longrightarrow>
   notifications (settle u i (Inr b) st) = notifications st
   \<and> pane_slots (settle u i (Inr b) st) = Some (foundSlots u (uuids st) b)
   \<and> delivered (settle u i (Inr b) st) = delivered st @ [(i, foundSlots u (uuids st) b)]"
  by (simp add: settle_def onFulfilled_def Let_def)

lemma uuids_settle_dead:
  "i < length (requests st) \<longrightarrow> dead (requests st ! i) \<Longrightarrow> uuids (settle u i outcome st) = uuids st"
  by (auto simp: settle_def dead_def onRejected_def onFulfilled_def Let_def split: sum.split)

lemma requests_settle_other:
  "k \<noteq> i \<Longrightarrow> requests (settle u i outcome st) ! k = requests st ! k"
  by (auto simp: settle_def Let_def split: sum.split)

lemma length_requests_settle [simp]:
  "length (requests (settle u i outcome st)) = length (requests st)"
  by (auto simp: settle_def Let_def split: sum.split)

lemma runEffect_fires:
  assumes "prop_schedule (props st) \<noteq> None" "serviceType st \<noteq> Null"
  shows "length (requests (runEffect st)) = Suc (length (requests st))"
    and "cleanup (runEffect st) = Some (length (requests st))"
    and "\<not> aborted (requests (runEffect st) ! length (requests st))"
    and "\<not> completed (requests (runEffect st) ! length (requests st))"
    and "k < length (requests st) \<Longrightarrow> requests (runEffect st) ! k = requests st ! k"
    and "observed (runEffect st) = observed st"
    and "uuids (runEffect st) = uuids st"
  using assms by (auto simp: runEffect_def observed_def nth_append)

lemma runCleanup_frame:
  "length (requests (runCleanup st)) = length (requests st)"
  "pane_slots (runCleanup st) = pane_slots st"
  "delivered (runCleanup st) = delivered st"
  "notifications (runCleanup st) = notifications st"
  "uuids (runCleanup st) = uuids st"
  "serviceType (runCleanup st) = serviceType st"
  "props (runCleanup st) = props st"
  by (simp_all add: runCleanup_def split: option.split)

lemma runCleanup_aborts:
  "cleanup st = Some i \<Longrightarrow> i < length (requests st) \<Longrightarrow> \<not> completed (requests st ! i) \<Longrightarrow>
   aborted (requests (runCleanup st) ! i) \<and> \<not> completed (requests (runCleanup st) ! i)"
  by (simp add: runCleanup_def)

lemma step_rerun:
  assumes "rerunsEffect e"
  obtains f where "step u e st = runEffect (runCleanup (f st))"
    "requests (f st) = requests st" "cleanup (f st) = cleanup st" "uuids (f st) = uuids st"
    "delivered (f st) = delivered st" "notifications (f st) = notifications st"
    "serviceType (f st) \<noteq> Null \<Longrightarrow> pane_slots (f st) = pane_slots st"
proof (cases e)
  case (SetServiceType c)
  show ?thesis
    by (rule that[of "\<lambda>s. s\<lparr> serviceType := toServiceType c \<rparr>"]) (simp_all add: SetServiceType)
next
  case Dismiss
  show ?thesis
    by (rule that[of "\<lambda>s. s\<lparr> serviceType := Null, pane_slots := Some [] \<rparr>"]) (simp_all add: Dismiss)
next
  case BookSuccess
  show ?thesis
    by (rule that[of "\<lambda>s. s\<lparr> serviceType := Null, pane_slots := Some [] \<rparr>"]) (simp_all add: BookSuccess)
next
  case (SetProps q)
  show ?thesis
    by (rule that[of "\<lambda>s. s\<lparr> props := q \<rparr>"]) (simp_all add: SetProps)
next
  case (Settle i outcome)
  with assms show ?thesis by simp
next
  case Unmount
  with assms show ?thesis by simp
qed

lemma serviceType_runEffect: "serviceType (runEffect st) = serviceType st"
  by (simp add: runEffect_def split: option.split)

lemma props_runEffect: "props (runEffect st) = props st"
  by (simp add: runEffect_def split: option.split)

lemma requests_runCleanup_other:
  "cleanup st \<noteq> Some k \<Longrightarrow> requests (runCleanup st) ! k = requests st ! k"
  by (auto simp: runCleanup_def split: option.split)

lemma step_fires:
  assumes e: "rerunsEffect e"
    and sch: "prop_schedule (props (step u e st)) \<noteq> None"
    and sel: "serviceType (step u e st) \<noteq> Null"
  shows "length (requests (step u e st)) = Suc (length (requests st))"
    and "cleanup (step u e st) = Some (length (requests st))"
    and "\<not> aborted (requests (step u e st) ! length (requests st))"
    and "\<not> completed (requests (step u e st) ! length (requests st))"
    and "observed (step u e st) = observed st"
    and "uuids (step u e st) = uuids st"
    and "cleanup st = Some i \<Longrightarrow> i < length (requests st) \<Longrightarrow> \<not> completed (requests st ! i) \<Longrightarrow>
         aborted (requests (step u e st) ! i) \<and> \<not> completed (requests (step u e st) ! i)"
proof -
  from step_rerun[OF e, of u st] obtain f where
    f: "step u e st = runEffect (runCleanup (f st))"
    "requests (f st) = requests st" "cleanup (f st) = cleanup st" "uuids (f st) = uuids st"
    "delivered (f st) = delivered st" "notifications (f st) = notifications st"
    "serviceType (f st) \<noteq> Null \<Longrightarrow> pane_slots (f st) = pane_slots st"
    by metis
  define a where "a = runCleanup (f st)"
  have fa: "prop_schedule (props a) \<noteq> None" "serviceType a \<noteq> Null"
    using sch sel by (simp_all add: f(1) a_def props_runEffect serviceType_runEffect)
  then have "serviceType (f st) \<noteq> Null" by (simp add: a_def runCleanup_frame)
  with f(7) have ps: "pane_slots (f st) = pane_slots st" by simp
  have a: "length (requests a) = length (requests st)" "observed a = observed st"
    "uuids a = uuids st"
    by (simp_all add: a_def runCleanup_frame observed_def f ps)
  note r = runEffect_fires[OF fa, unfolded a]
  show "length (requests (step u e st)) = Suc (length (requests st))"
    "cleanup (step u e st) = Some (length (requests st))"
    "\<not> aborted (requests (step u e st) ! length (requests st))"
    "\<not> completed (requests (step u e st) ! length (requests st))"
    "observed (step u e st) = observed st"
    "uuids (step u e st) = uuids st"
    using r(1,2,3,4,6,7) by (simp_all add: f(1) a_def[symmetric])
  show "aborted (requests (step u e st) ! i) \<and> \<not> completed (requests (step u e st) ! i)"
    if c: "cleanup st = Some i" "i < length (requests st)" "\<not> completed (requests st ! i)"
  proof -
    from c f have "cleanup (f st) = Some i" "i < length (requests (f st))"
      "\<not> completed (requests (f st) ! i)" by simp_all
    from runCleanup_aborts[OF this] have "aborted (requests a ! i) \<and> \<not> completed (requests a ! i)"
      by (simp add: a_def)
    moreover from c(2) have "requests (runEffect a) ! i = requests a ! i"
      by (intro runEffect_fires(5)[OF fa]) (simp add: a)
    ultimately show ?thesis by (simp add: f(1) a_def[symmetric])
  qed
qed

lemma second_search_supersedes_any:
  fixes u :: "nat \<Rightarrow> string" and st :: PaneState and e1 e2 :: Event
  defines "st1 \<equiv> step u e1 st"
  defines "st2 \<equiv> step u e2 st1"
  defines "i \<equiv> length (requests st)"
  assumes e1: "rerunsEffect e1" "prop_schedule (props st1) \<noteq> None" "serviceType st1 \<noteq> Null"
    and e2: "rerunsEffect e2" "prop_schedule (props st2) \<noteq> None" "serviceType st2 \<noteq> Null"
  shows "length (requests st2) = i + 2"
    and "observed st2 = observed st"
    and "observed (settle u i o1 st2) = observed st"
    and "observed (settle u (Suc i) (Inr b2) (settle u i o1 st2))
          = (Some (foundSlots u (uuids st) b2),
             delivered st @ [(Suc i, foundSlots u (uuids st) b2)], notifications st)"
    and "observed (settle u i o1 (settle u (Suc i) (Inr b2) st2))
          = (Some (foundSlots u (uuids st) b2),
             delivered st @ [(Suc i, foundSlots u (uuids st) b2)], notifications st)"
    and "observed (settle u (Suc i) (Inl err) (settle u i o1 st2))
          = (pane_slots st, delivered st, notifications st @ [err])"
proof -
  note f1 = step_fires[OF e1[unfolded st1_def], folded st1_def i_def]
  have c1: "cleanup st1 = Some i" "i < length (requests st1)" "\<not> completed (requests st1 ! i)"
    using f1(1,2,4) by simp_all
  note g2 = step_fires[OF e2[unfolded st2_def], folded st2_def]
  note f2 = g2[unfolded f1]
  from g2(7)[OF c1] have di: "aborted (requests st2 ! i)" "\<not> completed (requests st2 ! i)"
    by simp_all
  show len: "length (requests st2) = i + 2" using f2(1) by simp
  show obs2: "observed st2 = observed st" using f2(5) .
  have dead_i: "i < length (requests st2) \<longrightarrow> dead (requests st2 ! i)"
    using di by (simp add: dead_def)
  define t where "t = settle u i o1 st2"
  have t: "observed t = observed st" "uuids t = uuids st"
    using settle_dead[OF dead_i, of u o1] uuids_settle_dead[OF dead_i, of u o1] obs2 f2(6)
    by (simp_all add: t_def)
  show "observed (settle u i o1 st2) = observed st" using t(1) by (simp add: t_def)
  have tj: "Suc i < length (requests t)" "\<not> aborted (requests t ! Suc i)"
    "\<not> completed (requests t ! Suc i)"
    using len f2(3,4) by (simp_all add: t_def requests_settle_other)
  from settle_live_fulfilled[OF tj, of u b2] t
  show "observed (settle u (Suc i) (Inr b2) (settle u i o1 st2))
          = (Some (foundSlots u (uuids st) b2),
             delivered st @ [(Suc i, foundSlots u (uuids st) b2)], notifications st)"
    by (simp add: observed_def t_def)
  from settle_live_rejected[OF tj, of u err] t
  show "observed (settle u (Suc i) (Inl err) (settle u i o1 st2))
          = (pane_slots st, delivered st, notifications st @ [err])"
    by (simp add: observed_def t_def)
  define w where "w = settle u (Suc i) (Inr b2) st2"
  have sj: "Suc i < length (requests st2)" "\<not> aborted (requests st2 ! Suc i)"
    "\<not> completed (requests st2 ! Suc i)"
    using len f2(3,4) by simp_all
  from settle_live_fulfilled[OF sj, of u b2] obs2 f2(6)
  have w: "observed w = (Some (foundSlots u (uuids st) b2),
             delivered st @ [(Suc i, foundSlots u (uuids st) b2)], notifications st)"
    by (simp add: observed_def w_def)
  have "i < length (requests w) \<longrightarrow> dead (requests w ! i)"
    using di by (simp add: w_def requests_settle_other dead_def)
  from settle_dead[OF this, of u o1] w
  show "observed (settle u i o1 (settle u (Suc i) (Inr b2) st2))
          = (Some (foundSlots u (uuids st) b2),
             delivered st @ [(Suc i, foundSlots u (uuids st) b2)], notifications st)"
    by (simp add: w_def)
qed

text \<open>
  Claim C3. In every state that a pane reaches from mounting: the settling of a request
  other than the one of the pending cleanup (a superseded search) changes neither the
  slot list nor the deliveries nor the error notifications; after unmounting, the same
  holds for every request; an aborted request changes none of them either, so its
  rejection surfaces no error; the rejection of a request that is neither aborted nor
  completed surfaces its error. When two events in a row each issue a search (a
  selection or a change of props, with a schedule and a selection in place afterwards),
  the first search is superseded before it settles: its settling, before or after the
  second's, delivers nothing and notifies nothing, and the second's fulfilment makes
  the one delivery, the second's slot list, while the second's rejection surfaces its
  error and delivers nothing.
\<close>

theorem search_cancellation:
  fixes u :: "nat \<Rightarrow> string" and es :: "Event list" and p :: Props and n0 :: nat
    and e1 e2 :: Event
  defines "st \<equiv> run u es (mount n0 p)"
  defines "st1 \<equiv> step u e1 st"
  defines "st2 \<equiv> step u e2 st1"
  defines "i \<equiv> length (requests st)"
  shows "(cleanup st \<noteq> Some k \<longrightarrow> observed (settle u k outcome st) = observed st)
    \<and> observed (settle u k outcome (step u Unmount st)) = observed (step u Unmount st)
    \<and> (k < length (requests st) \<and> aborted (requests st ! k) \<longrightarrow>
          observed (settle u k outcome st) = observed st)
    \<and> (k < length (requests st) \<and> \<not> aborted (requests st ! k) \<and> \<not> completed (requests st ! k) \<longrightarrow>
          notifications (settle u k (Inl err) st) = notifications st @ [err])
    \<and> (rerunsEffect e1 \<and> prop_schedule (props st1) \<noteq> None \<and> serviceType st1 \<noteq> Null
        \<and> rerunsEffect e2 \<and> prop_schedule (props st2) \<noteq> None \<and> serviceType st2 \<noteq> Null \<longrightarrow>
          length (requests st2) = i + 2
          \<and> observed st2 = observed st
          \<and> observed (settle u i o1 st2) = observed st
          \<and> observed (settle u (Suc i) (Inr b2) (settle u i o1 st2))
              = (Some (foundSlots u (uuids st) b2),
                 delivered st @ [(Suc i, foundSlots u (uuids st) b2)], notifications st)
          \<and> observed (settle u i o1 (settle u (Suc i) (Inr b2) st2))
              = (Some (foundSlots u (uuids st) b2),
                 delivered st @ [(Suc i, foundSlots u (uuids st) b2)], notifications st)
          \<and> observed (settle u (Suc i) (Inl err) (settle u i o1 st2))
              = (pane_slots st, delivered st, notifications st @ [err]))"
proof -
  have inv: "othersDead st" unfolding st_def by (rule othersDead_reachable)
  have 1: "cleanup st \<noteq> Some k \<longrightarrow> observed (settle u k outcome st) = observed st"
    using settle_superseded[OF inv] by blast
  have "othersDead (step u Unmount st)" using inv by (rule othersDead_step)
  moreover have "cleanup (step u Unmount st) \<noteq> Some k" by simp
  ultimately have 2: "observed (settle u k outcome (step u Unmount st)) = observed (step u Unmount st)"
    by (rule settle_superseded)
  have 3: "k < length (requests st) \<and> aborted (requests st ! k) \<longrightarrow>
          observed (settle u k outcome st) = observed st"
    by (auto intro!: settle_dead simp: dead_def)
  have 4: "k < length (requests st) \<and> \<not> aborted (requests st ! k) \<and> \<not> completed (requests st ! k) \<longrightarrow>
          notifications (settle u k (Inl err) st) = notifications st @ [err]"
    using settle_live_rejected by blast
  have 5: "rerunsEffect e1 \<and> prop_schedule (props st1) \<noteq> None \<and> serviceType st1 \<noteq> Null
        \<and> rerunsEffect e2 \<and> prop_schedule (props st2) \<noteq> None \<and> serviceType st2 \<noteq> Null \<longrightarrow>
          length (requests st2) = i + 2
          \<and> observed st2 = observed st
          \<and> observed (settle u i o1 st2) = observed st
          \<and> observed (settle u (Suc i) (Inr b2) (settle u i o1 st2))
              = (Some (foundSlots u (uuids st) b2),
                 delivered st @ [(Suc i, foundSlots u (uuids st) b2)], notifications st)
          \<and> observed (settle u i o1 (settle u (Suc i) (Inr b2) st2))
              = (Some (foundSlots u (uuids st) b2),
                 delivered st @ [(Suc i, foundSlots u (uuids st) b2)], notifications st)
          \<and> observed (settle u (Suc i) (Inl err) (settle u i o1 st2))
              = (pane_slots st, delivered st, notifications st @ [err])"
  proof (intro impI, elim conjE)
    assume a: "rerunsEffect e1" "prop_schedule (props st1) \<noteq> None" "serviceType st1 \<noteq> Null"
      and b: "rerunsEffect e2" "prop_schedule (props st2) \<noteq> None" "serviceType st2 \<noteq> Null"
    note s = second_search_supersedes_any[OF a[unfolded st1_def] b[unfolded st2_def st1_def]]
    show "length (requests st2) = i + 2
          \<and> observed st2 = observed st
          \<and> observed (settle u i o1 st2) = observed st
          \<and> observed (settle u (Suc i) (Inr b2) (settle u i o1 st2))
              = (Some (foundSlots u (uuids st) b2),
                 delivered st @ [(Suc i, foundSlots u (uuids st) b2)], notifications st)
          \<and> observed (settle u i o1 (settle u (Suc i) (Inr b2) st2))
              = (Some (foundSlots u (uuids st) b2),
                 delivered st @ [(Suc i, foundSlots u (uuids st) b2)], notifications st)
          \<and> observed (settle u (Suc i) (Inl err) (settle u i o1 st2))
              = (pane_slots st, delivered st, notifications st @ [err])"
      unfolding st2_def st1_def i_def by (intro conjI s)
  qed
  from 1 2 3 4 5 show ?thesis by blast
qed

theorem search_cancellation_witness:
  "cleanup supersededPane \<noteq> Some 0
   \<and> observed (settle testUuid 0 (Inr mockBundle) supersededPane) = observed supersededPane
   \<and> 0 < length (requests supersededPane) \<and> aborted (requests supersededPane ! 0)
   \<and> observed (settle testUuid 0 (Inl ''Network error'') supersededPane) = observed supersededPane
   \<and> 1 < length (requests supersededPane) \<and> \<not> aborted (requests supersededPane ! 1)
   \<and> \<not> completed (requests supersededPane ! 1)
   \<and> notifications (settle testUuid 1 (Inl ''Network error'') supersededPane)
       = notifications supersededPane @ [''Network error'']
   \<and> rerunsEffect (SetServiceType (Some serviceType1))
   \<and> rerunsEffect (SetProps (paneProps twoTypes nextWeek))
   \<and> serviceType (step testUuid (SetServiceType (Some serviceType1))
                     (mount 0 (paneProps twoTypes defaultRange))) \<noteq> Null
   \<and> observed
        (settle testUuid 1 (Inr mockBundle)
          (settle testUuid 0 (Inl ''Network error'')
            (step testUuid (SetProps (paneProps twoTypes nextWeek))
              (step testUuid (SetServiceType (Some serviceType1))
                (mount 0 (paneProps twoTypes defaultRange))))))
       = (Some (foundSlots testUuid 2 mockBundle), [(1, foundSlots testUuid 2 mockBundle)], [])"
proof -
  let ?m = "mount 0 (paneProps twoTypes defaultRange)"
  let ?e1 = "SetServiceType (Some serviceType1)"
  let ?e2 = "SetProps (paneProps twoTypes nextWeek)"
  have h1: "cleanup supersededPane \<noteq> Some 0" by code_simp
  have h3: "0 < length (requests supersededPane) \<and> aborted (requests supersededPane ! 0)"
    by code_simp
  have h4: "1 < length (requests supersededPane) \<and> \<not> aborted (requests supersededPane ! 1)
    \<and> \<not> completed (requests supersededPane ! 1)" by code_simp
  have h5: "rerunsEffect ?e1" "rerunsEffect ?e2" by simp_all
  have h6: "prop_schedule (props (step testUuid ?e1 (run testUuid [] ?m))) \<noteq> None"
    "serviceType (step testUuid ?e1 (run testUuid [] ?m)) \<noteq> Null"
    "prop_schedule (props (step testUuid ?e2 (step testUuid ?e1 (run testUuid [] ?m)))) \<noteq> None"
    "serviceType (step testUuid ?e2 (step testUuid ?e1 (run testUuid [] ?m))) \<noteq> Null"
    by code_simp+
  have v0: "run testUuid [] ?m = ?m" by simp
  have v: "length (requests ?m) = 0" "uuids ?m = 2" "delivered ?m = []" "notifications ?m = []"
    by code_simp+
  note a = search_cancellation[of testUuid "[SetProps (paneProps [Some serviceType1] nextWeek)]"
      0 "paneProps [Some serviceType1] defaultRange" 0 "Inr mockBundle"
      "''Network error''" ?e1 ?e2 "Inl ''Network error''" mockBundle,
      folded supersededPane_def]
  note b = search_cancellation[of testUuid "[SetProps (paneProps [Some serviceType1] nextWeek)]"
      0 "paneProps [Some serviceType1] defaultRange" 1 "Inl ''Network error''"
      "''Network error''" ?e1 ?e2 "Inl ''Network error''" mockBundle,
      folded supersededPane_def]
  note c = search_cancellation[of testUuid "[SetProps (paneProps [Some serviceType1] nextWeek)]"
      0 "paneProps [Some serviceType1] defaultRange" 0 "Inl ''Network error''"
      "''Network error''" ?e1 ?e2 "Inl ''Network error''" mockBundle,
      folded supersededPane_def]
  note d = search_cancellation[of testUuid "[]" 0 "paneProps twoTypes defaultRange" 0
      "Inl ''Network error''" "''Network error''" ?e1 ?e2 "Inl ''Network error''" mockBundle]
  from a h1 have c1: "observed (settle testUuid 0 (Inr mockBundle) supersededPane)
      = observed supersededPane" by blast
  from c h3 have c2: "observed (settle testUuid 0 (Inl ''Network error'') supersededPane)
      = observed supersededPane" by blast
  from b h4 have c3: "notifications (settle testUuid 1 (Inl ''Network error'') supersededPane)
       = notifications supersededPane @ [''Network error'']" by blast
  from d h5 h6 have "observed
        (settle testUuid (Suc (length (requests (run testUuid [] ?m)))) (Inr mockBundle)
          (settle testUuid (length (requests (run testUuid [] ?m))) (Inl ''Network error'')
            (step testUuid ?e2 (step testUuid ?e1 (run testUuid [] ?m)))))
       = (Some (foundSlots testUuid (uuids (run testUuid [] ?m)) mockBundle),
          delivered (run testUuid [] ?m)
            @ [(Suc (length (requests (run testUuid [] ?m))),
                foundSlots testUuid (uuids (run testUuid [] ?m)) mockBundle)],
          notifications (run testUuid [] ?m))" by blast
  then have c4: "observed
        (settle testUuid 1 (Inr mockBundle)
          (settle testUuid 0 (Inl ''Network error'')
            (step testUuid ?e2 (step testUuid ?e1 ?m))))
       = (Some (foundSlots testUuid 2 mockBundle), [(1, foundSlots testUuid 2 mockBundle)], [])"
    unfolding v0 v by simp
  from h1 c1 h3 c2 h4 c3 h5 h6(2) c4 show ?thesis unfolding v0 by blast
qed

section \<open>Merging overlapping slots\<close>

lemma scan_start_ge:
  "sorted (map ivl_start (acc # xs)) \<Longrightarrow> y \<in> set (scan acc xs) \<Longrightarrow> ivl_start acc \<le> ivl_start y"
proof (induction acc xs rule: scan.induct)
  case (1 acc)
  then show ?case by simp
next
  case (2 acc nxt rest)
  show ?case
  proof (cases "ivl_start nxt \<le> ivl_end acc")
    case True
    from "2.prems"(1) have "sorted (map ivl_start (acc\<lparr> ivl_end := max (ivl_end acc) (ivl_end nxt) \<rparr> # rest))"
      by auto
    from "2.IH"(1)[OF True this] "2.prems"(2) True show ?thesis by simp
  next
    case False
    from "2.prems"(1) have s: "sorted (map ivl_start (nxt # rest))" and le: "ivl_start acc \<le> ivl_start nxt"
      by auto
    from "2.IH"(2)[OF False s] "2.prems"(2) False le show ?thesis by auto
  qed
qed

lemma scan_sorted_starts:
  "sorted (map ivl_start (acc # xs)) \<Longrightarrow> sorted (map ivl_start (scan acc xs))"
proof (induction acc xs rule: scan.induct)
  case (1 acc)
  then show ?case by simp
next
  case (2 acc nxt rest)
  show ?case
  proof (cases "ivl_start nxt \<le> ivl_end acc")
    case True
    from "2.prems" have "sorted (map ivl_start (acc\<lparr> ivl_end := max (ivl_end acc) (ivl_end nxt) \<rparr> # rest))"
      by auto
    from "2.IH"(1)[OF True this] True show ?thesis by simp
  next
    case False
    from "2.prems" have s: "sorted (map ivl_start (nxt # rest))" and le: "ivl_start acc \<le> ivl_start nxt"
      by auto
    from scan_start_ge[OF s] le have "\<forall>y \<in> set (scan nxt rest). ivl_start acc \<le> ivl_start y"
      by fastforce
    with "2.IH"(2)[OF False s] False show ?thesis by simp
  qed
qed

lemma scan_separated:
  "sorted (map ivl_start (acc # xs)) \<Longrightarrow>
   sorted_wrt (\<lambda>a b. ivl_end a < ivl_start b) (scan acc xs)"
proof (induction acc xs rule: scan.induct)
  case (1 acc)
  then show ?case by simp
next
  case (2 acc nxt rest)
  show ?case
  proof (cases "ivl_start nxt \<le> ivl_end acc")
    case True
    from "2.prems" have "sorted (map ivl_start (acc\<lparr> ivl_end := max (ivl_end acc) (ivl_end nxt) \<rparr> # rest))"
      by auto
    from "2.IH"(1)[OF True this] True show ?thesis by simp
  next
    case False
    from "2.prems" have s: "sorted (map ivl_start (nxt # rest))"
      by auto
    from scan_start_ge[OF s] False have "\<forall>y \<in> set (scan nxt rest). ivl_end acc < ivl_start y"
      by fastforce
    with "2.IH"(2)[OF False s] False show ?thesis by simp
  qed
qed

lemma covered_Cons: "covered (x # xs) = {ivl_start x ..< ivl_end x} \<union> covered xs"
  by (simp add: covered_def)

lemma coveredClosed_Cons: "coveredClosed (x # xs) = {ivl_start x .. ivl_end x} \<union> coveredClosed xs"
  by (simp add: coveredClosed_def)

lemma scan_covered:
  "sorted (map ivl_start (acc # xs)) \<Longrightarrow> covered (scan acc xs) = covered (acc # xs)"
proof (induction acc xs rule: scan.induct)
  case (1 acc)
  then show ?case by simp
next
  case (2 acc nxt rest)
  show ?case
  proof (cases "ivl_start nxt \<le> ivl_end acc")
    case True
    from "2.prems" have le: "ivl_start acc \<le> ivl_start nxt" by simp
    from "2.prems" have "sorted (map ivl_start (acc\<lparr> ivl_end := max (ivl_end acc) (ivl_end nxt) \<rparr> # rest))"
      by auto
    from "2.IH"(1)[OF True this] True
    have "covered (scan acc (nxt # rest))
        = {ivl_start acc ..< max (ivl_end acc) (ivl_end nxt)} \<union> covered rest"
      by (simp add: covered_Cons)
    moreover from True le
    have "{ivl_start acc ..< max (ivl_end acc) (ivl_end nxt)}
        = {ivl_start acc ..< ivl_end acc} \<union> {ivl_start nxt ..< ivl_end nxt}"
      by auto
    ultimately show ?thesis by (simp add: covered_Cons Un_assoc)
  next
    case False
    from "2.prems" have s: "sorted (map ivl_start (nxt # rest))" by auto
    from "2.IH"(2)[OF False s] False show ?thesis by (simp add: covered_Cons)
  qed
qed

lemma scan_coveredClosed:
  "sorted (map ivl_start (acc # xs)) \<Longrightarrow> coveredClosed (scan acc xs) = coveredClosed (acc # xs)"
proof (induction acc xs rule: scan.induct)
  case (1 acc)
  then show ?case by simp
next
  case (2 acc nxt rest)
  show ?case
  proof (cases "ivl_start nxt \<le> ivl_end acc")
    case True
    from "2.prems" have le: "ivl_start acc \<le> ivl_start nxt" by simp
    from "2.prems" have "sorted (map ivl_start (acc\<lparr> ivl_end := max (ivl_end acc) (ivl_end nxt) \<rparr> # rest))"
      by auto
    from "2.IH"(1)[OF True this] True
    have "coveredClosed (scan acc (nxt # rest))
        = {ivl_start acc .. max (ivl_end acc) (ivl_end nxt)} \<union> coveredClosed rest"
      by (simp add: coveredClosed_Cons)
    moreover from True le
    have "{ivl_start acc .. max (ivl_end acc) (ivl_end nxt)}
        = {ivl_start acc .. ivl_end acc} \<union> {ivl_start nxt .. ivl_end nxt}"
      by auto
    ultimately show ?thesis by (simp add: coveredClosed_Cons Un_assoc)
  next
    case False
    from "2.prems" have s: "sorted (map ivl_start (nxt # rest))" by auto
    from "2.IH"(2)[OF False s] False show ?thesis by (simp add: coveredClosed_Cons)
  qed
qed

lemma scan_wellFormed:
  "wellFormed acc \<Longrightarrow> list_all wellFormed xs \<Longrightarrow> list_all wellFormed (scan acc xs)"
  by (induction acc xs rule: scan.induct) (auto simp: wellFormed_def)

lemma covered_set: "set xs = set ys \<Longrightarrow> covered xs = covered ys"
  by (simp add: covered_def)

lemma coveredClosed_set: "set xs = set ys \<Longrightarrow> coveredClosed xs = coveredClosed ys"
  by (simp add: coveredClosed_def)

lemma merge_cases:
  obtains "intervals = []" "mergeOverlappingSlots intervals = []"
  | first rest where "sort_key ivl_start intervals = first # rest"
      "mergeOverlappingSlots intervals = scan first rest"
      "sorted (map ivl_start (first # rest))" "set (first # rest) = set intervals"
proof (cases "sort_key ivl_start intervals")
  case Nil
  then have "intervals = []" by (metis length_sort list.size(3) length_0_conv)
  with that(1) show ?thesis by (simp add: mergeOverlappingSlots_def)
next
  case (Cons first rest)
  have "sorted (map ivl_start (sort_key ivl_start intervals))" by simp
  moreover have "set (sort_key ivl_start intervals) = set intervals" by simp
  ultimately show ?thesis using that(2)[of first rest] Cons
    by (simp add: mergeOverlappingSlots_def)
qed

lemma separated_no_touch:
  assumes sep: "sorted_wrt (\<lambda>a b. ivl_end a < ivl_start b) out"
    and wf: "list_all wellFormed out"
    and a: "a \<in> set out" and b: "b \<in> set out"
  shows "ivl_end a \<noteq> ivl_start b"
proof
  assume eq: "ivl_end a = ivl_start b"
  from a obtain i where i: "i < length out" "out ! i = a" by (auto simp: in_set_conv_nth)
  from b obtain j where j: "j < length out" "out ! j = b" by (auto simp: in_set_conv_nth)
  from wf a b have wa: "ivl_start a < ivl_end a" and wb: "ivl_start b < ivl_end b"
    by (auto simp: list_all_iff wellFormed_def)
  consider "i < j" | "i = j" | "j < i" by linarith
  then show False
  proof cases
    case 1
    with sep i j have "ivl_end a < ivl_start b" by (auto simp: sorted_wrt_iff_nth_less)
    with eq show False by simp
  next
    case 2
    with i j have "a = b" by simp
    with eq wa show False by simp
  next
    case 3
    with sep i j have "ivl_end b < ivl_start a" by (auto simp: sorted_wrt_iff_nth_less)
    with eq wa wb show False by simp
  qed
qed


text \<open>
  Claim C1. For every finite list of intervals, the merged list is sorted ascending by
  start time; each of its intervals ends strictly before every later one starts, so no
  two of them overlap or touch, even with their end instants counted in; and it covers
  the same time as the input, with the end instants left out as well as counted in.
  When every input interval has its start before its end, so has every merged
  interval, and no merged interval ends exactly when a merged interval begins.
\<close>

theorem merge_correct:
  "sorted (map ivl_start (mergeOverlappingSlots intervals))
   \<and> sorted_wrt (\<lambda>a b. ivl_end a < ivl_start b) (mergeOverlappingSlots intervals)
   \<and> covered (mergeOverlappingSlots intervals) = covered intervals
   \<and> coveredClosed (mergeOverlappingSlots intervals) = coveredClosed intervals
   \<and> pairwise (\<lambda>a b. {ivl_start a .. ivl_end a} \<inter> {ivl_start b .. ivl_end b} = {})
        (set (mergeOverlappingSlots intervals))
   \<and> (list_all wellFormed intervals \<longrightarrow>
        list_all wellFormed (mergeOverlappingSlots intervals)
        \<and> (\<forall>a \<in> set (mergeOverlappingSlots intervals).
             \<forall>b \<in> set (mergeOverlappingSlots intervals). ivl_end a \<noteq> ivl_start b))"
proof (cases intervals rule: merge_cases)
  case 1
  then show ?thesis by (simp add: covered_def coveredClosed_def)
next
  case (2 first rest)
  let ?out = "mergeOverlappingSlots intervals"
  have s: "sorted (map ivl_start ?out)" using 2 by (simp add: scan_sorted_starts)
  have sep: "sorted_wrt (\<lambda>a b. ivl_end a < ivl_start b) ?out" using 2 by (simp add: scan_separated)
  have c: "covered ?out = covered intervals"
    using 2 scan_covered[of first rest] covered_set[of "first # rest" intervals] by simp
  have cc: "coveredClosed ?out = coveredClosed intervals"
    using 2 scan_coveredClosed[of first rest] coveredClosed_set[of "first # rest" intervals] by simp
  have "{ivl_start a .. ivl_end a} \<inter> {ivl_start b .. ivl_end b} = {}"
    if "a \<in> set ?out" "b \<in> set ?out" "a \<noteq> b" for a b
  proof -
    from that(1) obtain i where i: "i < length ?out" "?out ! i = a" by (auto simp: in_set_conv_nth)
    from that(2) obtain j where j: "j < length ?out" "?out ! j = b" by (auto simp: in_set_conv_nth)
    from that(3) i j have "i \<noteq> j" by auto
    then consider "i < j" | "j < i" by linarith
    then show ?thesis
    proof cases
      case 1
      with sep i j have "ivl_end a < ivl_start b" by (auto simp: sorted_wrt_iff_nth_less)
      then show ?thesis by auto
    next
      case 2
      with sep i j have "ivl_end b < ivl_start a" by (auto simp: sorted_wrt_iff_nth_less)
      then show ?thesis by auto
    qed
  qed
  then have pw: "pairwise (\<lambda>a b. {ivl_start a .. ivl_end a} \<inter> {ivl_start b .. ivl_end b} = {})
      (set ?out)"
    by (simp add: pairwise_def)
  have w: "list_all wellFormed ?out
        \<and> (\<forall>a \<in> set ?out. \<forall>b \<in> set ?out. ivl_end a \<noteq> ivl_start b)"
    if wf: "list_all wellFormed intervals"
  proof -
    from wf 2(4) have "wellFormed first" "list_all wellFormed rest"
      by (auto simp: list_all_iff)
    then have wo: "list_all wellFormed ?out" using 2(2) by (simp add: scan_wellFormed)
    have nt: "\<forall>a \<in> set ?out. \<forall>b \<in> set ?out. ivl_end a \<noteq> ivl_start b"
      using separated_no_touch[OF sep wo] by blast
    with wo show ?thesis by blast
  qed
  from s sep c cc pw w show ?thesis by blast
qed

text \<open>The examples and edge cases of the spec: overlapping, touching, empty, nested.\<close>

lemma merge_examples:
  "mergeOverlappingSlots specExample
     = [\<lparr> ivl_start = 36000000, ivl_end = 38700000 \<rparr>,
        \<lparr> ivl_start = 39600000, ivl_end = 40200000 \<rparr>]"
  "mergeOverlappingSlots
     [\<lparr> ivl_start = 36000000, ivl_end = 37800000 \<rparr>, \<lparr> ivl_start = 37800000, ivl_end = 39600000 \<rparr>]
     = [\<lparr> ivl_start = 36000000, ivl_end = 39600000 \<rparr>]"
  "mergeOverlappingSlots [] = []"
  "mergeOverlappingSlots [\<lparr> ivl_start = 1, ivl_end = 9 \<rparr>, \<lparr> ivl_start = 3, ivl_end = 5 \<rparr>]
     = [\<lparr> ivl_start = 1, ivl_end = 9 \<rparr>]"
  by code_simp+

theorem merge_correct_witness:
  "list_all wellFormed specExample
   \<and> list_all wellFormed (mergeOverlappingSlots specExample)
   \<and> sorted_wrt (\<lambda>a b. ivl_end a < ivl_start b) (mergeOverlappingSlots specExample)
   \<and> covered (mergeOverlappingSlots specExample) = covered specExample"
proof -
  have h: "list_all wellFormed specExample" by code_simp
  from merge_correct[of specExample] h show ?thesis by blast
qed

end
